theory Spec2Isabelle
  imports Main "HOL-Library.AList" "HOL-Library.Sublist"
begin

section \<open>Python values and errors\<close>

text \<open>
  The job script \<^verbatim>\<open>lib/overwrite_glue.py\<close> works on the JSON-like responses of the
  Glue catalog client: dictionaries with string keys whose values are strings, numbers,
  lists and nested dictionaries. A dictionary is an association list in insertion order,
  as a Python \<^verbatim>\<open>dict\<close> is. Strings are lists of characters with code points below 256.
\<close>

datatype pyval =
    PNone
  | PBool bool
  | PInt int
  | PStr string
  | PList "pyval list"
  | PDict "(string \<times> pyval) list"

type_synonym pydict = "(string \<times> pyval) list"

text \<open>
  Every exception the script can meet is a value. \<open>EntityNotFound\<close>, \<open>InvalidInput\<close> and
  \<open>ServiceError\<close> are the catalog client's errors (absent entity, rejected request,
  transport or service failure); \<open>SinkError\<close> carries a failure of the data sink.
\<close>

datatype error =
    KeyError string
  | IndexError
  | ValueError
  | TypeError
  | AttributeError
  | EntityNotFound
  | InvalidInput
  | ServiceError
  | SinkError string

definition bind_err :: "error + 'a \<Rightarrow> ('a \<Rightarrow> error + 'b) \<Rightarrow> error + 'b" where
  "bind_err m f = (case m of Inl e \<Rightarrow> Inl e | Inr x \<Rightarrow> f x)"

text \<open>\<^verbatim>\<open>v[k]\<close> on a value: a dictionary raises KeyError for a missing key; the other
  values met here (\<^verbatim>\<open>None\<close>, strings with a string index, numbers) raise TypeError.\<close>

definition subscript :: "pyval \<Rightarrow> string \<Rightarrow> error + pyval" where
  "subscript v k =
     (case v of
        PDict d \<Rightarrow> (case map_of d k of None \<Rightarrow> Inl (KeyError k) | Some x \<Rightarrow> Inr x)
      | _ \<Rightarrow> Inl TypeError)"

text \<open>\<^verbatim>\<open>{key: d[key] for key in d if key not in ks}\<close>\<close>

definition without_keys :: "string list \<Rightarrow> pydict \<Rightarrow> pydict" where
  "without_keys ks d = filter (\<lambda>(k, v). k \<notin> set ks) d"

section \<open>String operations of the Python library\<close>

text \<open>\<^verbatim>\<open>s.split(c)\<close> for a one-character separator. The result is never an empty
  list, so the second branch of the \<open>case\<close> is never taken.\<close>

fun split :: "char \<Rightarrow> string \<Rightarrow> string list" where
  "split c [] = [[]]"
| "split c (x # xs) =
     (if x = c then [] # split c xs
      else (case split c xs of y # ys \<Rightarrow> (x # y) # ys | [] \<Rightarrow> [[x]]))"

text \<open>\<^verbatim>\<open>sep.join(xs)\<close>\<close>

fun join :: "string \<Rightarrow> string list \<Rightarrow> string" where
  "join sep [] = []"
| "join sep [x] = x"
| "join sep (x # y # ys) = x @ sep @ join sep (y # ys)"

text \<open>\<^verbatim>\<open>s.replace(old, new)\<close> for a non-empty \<open>old\<close>: the occurrences are found from the
  left and do not overlap.\<close>

fun replace :: "string \<Rightarrow> string \<Rightarrow> string \<Rightarrow> string" where
  "replace old new [] = []"
| "replace old new (c # cs) =
     (if old \<noteq> [] \<and> prefix old (c # cs)
      then new @ replace old new (drop (length old - 1) cs)
      else c # replace old new cs)"

text \<open>\<^verbatim>\<open>str(i)\<close> of an integer: its decimal digits, with a minus sign when negative.\<close>

definition digit_char :: "nat \<Rightarrow> char" where
  "digit_char d = ''0123456789'' ! d"

fun digits :: "nat \<Rightarrow> string" where
  "digits n = (if n < 10 then [digit_char n] else digits (n div 10) @ [digit_char (n mod 10)])"

declare digits.simps [simp del]

definition py_str :: "int \<Rightarrow> string" where
  "py_str i = (if i < 0 then CHR ''-'' # digits (nat (- i)) else digits (nat i))"

text \<open>
  \<^verbatim>\<open>int(s)\<close> of a string, base 10: white space is skipped at both ends, one sign may
  follow, then decimal digits, where single underscores may stand between digits
  (Python 3.6 and later). Anything else raises ValueError. The white space accepted is
  tab, line feed, vertical tab, form feed, carriage return, space and, above ASCII, the
  code points 0x85 and 0xA0.
\<close>

definition is_space :: "char \<Rightarrow> bool" where
  "is_space c \<longleftrightarrow> (of_char c :: nat) \<in> set [9, 10, 11, 12, 13, 32, 133, 160]"

definition is_digit :: "char \<Rightarrow> bool" where
  "is_digit c \<longleftrightarrow> 48 \<le> (of_char c :: nat) \<and> (of_char c :: nat) \<le> 57"

definition digit_val :: "char \<Rightarrow> int" where
  "digit_val c = int (of_char c) - 48"

definition strip :: "string \<Rightarrow> string" where
  "strip s = rev (dropWhile is_space (rev (dropWhile is_space s)))"

fun parse_digits :: "int \<Rightarrow> string \<Rightarrow> error + int" where
  "parse_digits acc [] = Inr acc"
| "parse_digits acc [c] = (if is_digit c then Inr (acc * 10 + digit_val c) else Inl ValueError)"
| "parse_digits acc (c # d # cs) =
     (if is_digit c then parse_digits (acc * 10 + digit_val c) (d # cs)
      else if c = CHR ''_'' \<and> is_digit d then parse_digits acc (d # cs)
      else Inl ValueError)"

definition parse_unsigned :: "string \<Rightarrow> error + int" where
  "parse_unsigned s =
     (case s of
        [] \<Rightarrow> Inl ValueError
      | c # cs \<Rightarrow> if is_digit c then parse_digits 0 s else Inl ValueError)"

definition py_int :: "string \<Rightarrow> error + int" where
  "py_int s =
     (case strip s of
        [] \<Rightarrow> Inl ValueError
      | c # cs \<Rightarrow>
          if c = CHR ''-'' then bind_err (parse_unsigned cs) (\<lambda>n. Inr (- n))
          else if c = CHR ''+'' then parse_unsigned cs
          else parse_unsigned (c # cs))"

section \<open>Location versioning\<close>

text \<open>
  \<^verbatim>\<open>calculate_next_location\<close> (lines 121-129). The argument is the response of
  \<^verbatim>\<open>get_table\<close>. \<^verbatim>\<open>curr_location_split[-2]\<close> raises IndexError on a list of fewer than
  two segments; \<^verbatim>\<open>.split\<close> on a location that is not a string raises AttributeError.
\<close>

definition calculate_next_location :: "pydict \<Rightarrow> error + string" where
  "calculate_next_location existing_target_table =
     bind_err (subscript (PDict existing_target_table) ''Table'') (\<lambda>curr_table.
     bind_err (subscript curr_table ''StorageDescriptor'') (\<lambda>sd.
     bind_err (subscript sd ''Location'') (\<lambda>loc.
       case loc of
         PStr l \<Rightarrow>
           (let curr_location_split = split CHR ''/'' l in
            if length curr_location_split < 2 then Inl IndexError
            else
              let curr_version_suffix = curr_location_split ! (length curr_location_split - 2) in
              bind_err (py_int (replace ''version_'' '''' curr_version_suffix)) (\<lambda>curr_version_int.
                let next_version_int = curr_version_int + 1;
                    next_location_split =
                      take (length curr_location_split - 2) curr_location_split
                        @ [''version_'' @ py_str next_version_int, '''']
                in Inr (join ''/'' next_location_split)))
       | _ \<Rightarrow> Inl AttributeError)))"

section \<open>The Glue catalog behind the client\<close>

text \<open>
  The script reaches the catalog only through the \<^verbatim>\<open>boto3\<close> client it is handed, and
  the data only through the Glue sink. Both are outside the repository. The catalog is
  modelled as an in-memory store: databases and tables by name, and for each table the
  list of its partition records as \<^verbatim>\<open>get_partitions\<close> returns them. \<open>page_size\<close> is
  the page length the service chooses when the caller sets none (0: one page), \<open>clock\<close>
  is \<^verbatim>\<open>datetime.now().strftime('%Y%m%d%H%M')\<close>.

  Every request is appended to \<open>calls\<close>. A request whose position in that log is listed
  in \<open>faults\<close> raises \<open>ServiceError\<close> and changes nothing: any request may fail for
  reasons of transport or service.
\<close>

record sink =
  connection_type :: string
  path :: string
  enableUpdateCatalog :: bool
  partitionKeys :: "string list"
  format :: string
  catalogDatabase :: string
  catalogTableName :: string

datatype call =
    GetTable string string
  | GetDatabase string
  | GetPartitions string string
  | BatchDeletePartition string string "pydict list"
  | BatchCreatePartition string string "pydict list"
  | UpdateTable string pydict
  | DeleteTable string string
  | WriteFrame sink

record world =
  databases :: "string \<rightharpoonup> pydict"
  tables :: "string \<times> string \<rightharpoonup> pydict"
  partitions :: "string \<times> string \<Rightarrow> pydict list"
  page_size :: nat
  clock :: string
  faults :: "nat list"
  calls :: "call list"

definition request :: "call \<Rightarrow> world \<Rightarrow> bool \<times> world" where
  "request c w = (length (calls w) \<in> set (faults w), w\<lparr>calls := calls w @ [c]\<rparr>)"

definition bind_w ::
  "(world \<Rightarrow> (error + 'a) \<times> world) \<Rightarrow> ('a \<Rightarrow> world \<Rightarrow> (error + 'b) \<times> world)
     \<Rightarrow> world \<Rightarrow> (error + 'b) \<times> world" where
  "bind_w m f w = (case m w of (Inl e, w1) \<Rightarrow> (Inl e, w1) | (Inr x, w1) \<Rightarrow> f x w1)"

definition pure_w :: "error + 'a \<Rightarrow> world \<Rightarrow> (error + 'a) \<times> world" where
  "pure_w r w = (r, w)"

text \<open>A \<^verbatim>\<open>for\<close> loop whose body may raise: the first exception ends it.\<close>

fun for_each ::
  "('a \<Rightarrow> world \<Rightarrow> (error + unit) \<times> world) \<Rightarrow> 'a list \<Rightarrow> world \<Rightarrow> (error + unit) \<times> world" where
  "for_each body [] w = (Inr (), w)"
| "for_each body (x # xs) w =
     (case body x w of (Inl e, w1) \<Rightarrow> (Inl e, w1) | (Inr u, w1) \<Rightarrow> for_each body xs w1)"

subsection \<open>Client operations\<close>

definition glue_get_table :: "string \<Rightarrow> string \<Rightarrow> world \<Rightarrow> (error + pydict) \<times> world" where
  "glue_get_table db name w =
     (case request (GetTable db name) w of
        (True, w1) \<Rightarrow> (Inl ServiceError, w1)
      | (False, w1) \<Rightarrow>
          (case tables w1 (db, name) of
             None \<Rightarrow> (Inl EntityNotFound, w1)
           | Some t \<Rightarrow> (Inr [(''Table'', PDict t)], w1)))"

definition glue_get_database :: "string \<Rightarrow> world \<Rightarrow> (error + pydict) \<times> world" where
  "glue_get_database name w =
     (case request (GetDatabase name) w of
        (True, w1) \<Rightarrow> (Inl ServiceError, w1)
      | (False, w1) \<Rightarrow>
          (case databases w1 name of
             None \<Rightarrow> (Inl EntityNotFound, w1)
           | Some d \<Rightarrow> (Inr [(''Database'', PDict d)], w1)))"

text \<open>\<^verbatim>\<open>range(0, stop, step)\<close> for a positive step, and the slices \<^verbatim>\<open>xs[i:i + n]\<close> it
  indexes.\<close>

definition range_step :: "nat \<Rightarrow> nat \<Rightarrow> nat list" where
  "range_step stop step = map (\<lambda>k. k * step) [0..<(stop + step - 1) div step]"

definition pages :: "nat \<Rightarrow> 'a list \<Rightarrow> 'a list list" where
  "pages n xs =
     (if n = 0 \<or> xs = [] then [xs]
      else map (\<lambda>i. take n (drop i xs)) (range_step (length xs) n))"

text \<open>
  The paginator of \<^verbatim>\<open>get_partitions\<close>: the partitions the table has when the
  enumeration starts, each exactly once, in pages of the given length (one empty page
  for a table without partitions). The request is logged once.
\<close>

definition glue_get_partitions ::
  "string \<Rightarrow> string \<Rightarrow> nat \<Rightarrow> world \<Rightarrow> (error + pydict list list) \<times> world" where
  "glue_get_partitions db t n w =
     (case request (GetPartitions db t) w of
        (True, w1) \<Rightarrow> (Inl ServiceError, w1)
      | (False, w1) \<Rightarrow> (Inr (pages n (partitions w1 (db, t))), w1))"

text \<open>\<^verbatim>\<open>batch_delete_partition\<close>: at most 25 entries; removes the partitions of the table
  whose \<^verbatim>\<open>Values\<close> are listed.\<close>

definition glue_batch_delete_partition ::
  "string \<Rightarrow> string \<Rightarrow> pydict list \<Rightarrow> world \<Rightarrow> (error + unit) \<times> world" where
  "glue_batch_delete_partition db t to_delete w =
     (case request (BatchDeletePartition db t to_delete) w of
        (True, w1) \<Rightarrow> (Inl ServiceError, w1)
      | (False, w1) \<Rightarrow>
          if length to_delete > 25 then (Inl InvalidInput, w1)
          else (Inr (),
                w1\<lparr>partitions := (partitions w1)((db, t) :=
                      filter (\<lambda>p. map_of p ''Values'' \<notin> set (map (\<lambda>d. map_of d ''Values'') to_delete))
                        (partitions w1 (db, t)))\<rparr>))"

text \<open>\<^verbatim>\<open>batch_create_partition\<close>: at most 100 entries; each input becomes a partition of
  the named table, which the service records in it; an input whose \<^verbatim>\<open>Values\<close> the table
  already has is reported in the response, which the script does not read, and skipped.\<close>

definition rehome :: "string \<Rightarrow> string \<Rightarrow> pydict \<Rightarrow> pydict" where
  "rehome db t p = AList.update ''DatabaseName'' (PStr db) (AList.update ''TableName'' (PStr t) p)"

definition add_partition :: "string \<Rightarrow> string \<Rightarrow> pydict list \<Rightarrow> pydict \<Rightarrow> pydict list" where
  "add_partition db t ps p =
     (if map_of p ''Values'' \<in> set (map (\<lambda>q. map_of q ''Values'') ps) then ps
      else ps @ [rehome db t p])"

definition glue_batch_create_partition ::
  "string \<Rightarrow> string \<Rightarrow> pydict list \<Rightarrow> world \<Rightarrow> (error + unit) \<times> world" where
  "glue_batch_create_partition db t inputs w =
     (case request (BatchCreatePartition db t inputs) w of
        (True, w1) \<Rightarrow> (Inl ServiceError, w1)
      | (False, w1) \<Rightarrow>
          if length inputs > 100 then (Inl InvalidInput, w1)
          else (Inr (),
                w1\<lparr>partitions := (partitions w1)((db, t) :=
                      foldl (add_partition db t) (partitions w1 (db, t)) inputs)\<rparr>))"

text \<open>\<^verbatim>\<open>update_table\<close> replaces the whole definition of the table named in the input;
  the service records the database in it.\<close>

definition glue_update_table :: "string \<Rightarrow> pydict \<Rightarrow> world \<Rightarrow> (error + unit) \<times> world" where
  "glue_update_table db table_input w =
     (case request (UpdateTable db table_input) w of
        (True, w1) \<Rightarrow> (Inl ServiceError, w1)
      | (False, w1) \<Rightarrow>
          (case map_of table_input ''Name'' of
             Some (PStr name) \<Rightarrow>
               if tables w1 (db, name) = None then (Inl EntityNotFound, w1)
               else (Inr (),
                     w1\<lparr>tables := (tables w1)((db, name) \<mapsto>
                           AList.update ''DatabaseName'' (PStr db) table_input)\<rparr>)
           | _ \<Rightarrow> (Inl InvalidInput, w1)))"

definition glue_delete_table :: "string \<Rightarrow> string \<Rightarrow> world \<Rightarrow> (error + unit) \<times> world" where
  "glue_delete_table db name w =
     (case request (DeleteTable db name) w of
        (True, w1) \<Rightarrow> (Inl ServiceError, w1)
      | (False, w1) \<Rightarrow>
          if tables w1 (db, name) = None then (Inl EntityNotFound, w1)
          else (Inr (),
                w1\<lparr>tables := (tables w1)((db, name) := None),
                   partitions := (partitions w1)((db, name) := [])\<rparr>))"

section \<open>The job script\<close>

text \<open>\<^verbatim>\<open>get_catalog_table\<close> (lines 11-15): the bare \<^verbatim>\<open>except\<close> turns every exception of
  \<^verbatim>\<open>get_table\<close> into \<^verbatim>\<open>None\<close>.\<close>

definition get_catalog_table :: "string \<Rightarrow> string \<Rightarrow> world \<Rightarrow> pydict option \<times> world" where
  "get_catalog_table db_name table_name w =
     (case glue_get_table db_name table_name w of
        (Inr r, w1) \<Rightarrow> (Some r, w1)
      | (Inl e, w1) \<Rightarrow> (None, w1))"

text \<open>\<^verbatim>\<open>[{k: v[k]} for k, v in kvs]\<close> (line 29)\<close>

fun key_projections :: "(string \<times> pydict) list \<Rightarrow> error + pydict list" where
  "key_projections [] = Inr []"
| "key_projections ((k, v) # kvs) =
     bind_err (subscript (PDict v) k) (\<lambda>x.
     bind_err (key_projections kvs) (\<lambda>rest. Inr ([(k, x)] # rest)))"

text \<open>\<^verbatim>\<open>delete_partitions\<close> (lines 18-34); \<^verbatim>\<open>range\<close> raises ValueError for step 0.\<close>

definition delete_partitions ::
  "string \<Rightarrow> string \<Rightarrow> nat \<Rightarrow> world \<Rightarrow> (error + unit) \<times> world" where
  "delete_partitions database table batch =
     bind_w (\<lambda>w. glue_get_partitions database table (page_size w) w) (\<lambda>response.
       for_each (\<lambda>partitions.
         if batch = 0 then pure_w (Inl ValueError)
         else
           for_each (\<lambda>i.
             bind_w (pure_w (key_projections
                       (zip (replicate batch ''Values'') (take batch (drop i partitions)))))
               (\<lambda>to_delete. glue_batch_delete_partition database table to_delete))
             (range_step (length partitions) batch))
         response)"

text \<open>\<^verbatim>\<open>copy_partitions\<close> (lines 37-58)\<close>

definition copy_partitions ::
  "string \<Rightarrow> string \<Rightarrow> string \<Rightarrow> string \<Rightarrow> world \<Rightarrow> (error + unit) \<times> world" where
  "copy_partitions source_database source_table target_database target_table =
     bind_w (glue_get_partitions source_database source_table 100) (\<lambda>response.
       for_each (\<lambda>partitions.
         let clean_partitions =
               map (without_keys [''DatabaseName'', ''TableName'', ''CreationTime'']) partitions
         in glue_batch_create_partition target_database target_table clean_partitions)
         response)"

text \<open>\<^verbatim>\<open>get_output_path\<close> (lines 61-66)\<close>

definition get_output_path :: "string \<Rightarrow> string \<Rightarrow> world \<Rightarrow> (error + string) \<times> world" where
  "get_output_path output_database output_table =
     bind_w (glue_get_database output_database) (\<lambda>response.
       pure_w (
         bind_err (subscript (PDict response) ''Database'') (\<lambda>d.
         bind_err (subscript d ''LocationUri'') (\<lambda>u.
           case u of
             PStr database_location_uri \<Rightarrow>
               Inr ((if suffix ''/'' database_location_uri then butlast database_location_uri
                     else database_location_uri) @ ''/'' @ output_table)
           | _ \<Rightarrow> Inl AttributeError))))"

text \<open>
  \<^verbatim>\<open>write_parquet\<close> (lines 77-89). The Glue context is a parameter: given the sink's
  configuration and the frame, it changes the catalog entry of the table named by
  \<^verbatim>\<open>setCatalogInfo\<close> (the definition, if any, and the partitions) and succeeds or raises.
  A write that raises may still have changed that entry.
\<close>

type_synonym entry = "pydict option \<times> pydict list"

type_synonym 'd glue_sink = "sink \<Rightarrow> 'd \<Rightarrow> entry \<Rightarrow> (error + unit) \<times> entry"

definition write_parquet ::
  "'d glue_sink \<Rightarrow> 'd \<Rightarrow> string \<Rightarrow> string list \<Rightarrow> string \<Rightarrow> string \<Rightarrow> world
     \<Rightarrow> (error + unit) \<times> world" where
  "write_parquet glue_context dyf output_path partition_keys output_database output_table w =
     (let sink = \<lparr>connection_type = ''s3'', path = output_path, enableUpdateCatalog = True,
                  partitionKeys = partition_keys, format = ''glueparquet'',
                  catalogDatabase = output_database, catalogTableName = output_table\<rparr>;
          k = (output_database, output_table)
      in case glue_context sink dyf (tables w k, partitions w k) of
           (r, (t, ps)) \<Rightarrow>
             (r, w\<lparr>tables := (tables w)(k := t),
                    partitions := (partitions w)(k := ps),
                    calls := calls w @ [WriteFrame sink]\<rparr>))"

text \<open>Lines 108-112: the definition submitted for the target, from the staging table's.
  Assigning into a \<^verbatim>\<open>StorageDescriptor\<close> that is not a dictionary raises TypeError.\<close>

definition build_table_input :: "pydict \<Rightarrow> string \<Rightarrow> string \<Rightarrow> error + pydict" where
  "build_table_input version_tmp_table_result output_table next_location =
     (let table_input =
            without_keys [''CreatedBy'', ''CreateTime'', ''UpdateTime'', ''DatabaseName'',
                          ''IsRegisteredWithLakeFormation''] version_tmp_table_result;
          table_input = AList.update ''Name'' (PStr output_table) table_input
      in bind_err (subscript (PDict table_input) ''StorageDescriptor'') (\<lambda>sd.
           case sd of
             PDict d \<Rightarrow>
               Inr (AList.update ''StorageDescriptor''
                      (PDict (AList.update ''Location'' (PStr next_location) d)) table_input)
           | _ \<Rightarrow> Inl TypeError))"

text \<open>
  Lines 99-117: the branch of \<^verbatim>\<open>write_versioned_parquet\<close> for an existing target, up to
  and including \<^verbatim>\<open>update_table\<close>. It returns the name of the staging table.
  \<^verbatim>\<open>get_catalog_table(...)['Table']\<close> raises TypeError when the lookup returned \<^verbatim>\<open>None\<close>.
\<close>

definition swap_until_flip ::
  "'d glue_sink \<Rightarrow> 'd \<Rightarrow> string list \<Rightarrow> string \<Rightarrow> string \<Rightarrow> pydict \<Rightarrow> world
     \<Rightarrow> (error + string) \<times> world" where
  "swap_until_flip glue_context dyf partition_keys output_database output_table
       existing_target_table w0 =
     (let version_tmp_suffix = ''_version_tmp_'' @ clock w0;
          version_tmp_table = output_table @ version_tmp_suffix
      in bind_w (pure_w (calculate_next_location existing_target_table)) (\<lambda>next_location.
         bind_w (write_parquet glue_context dyf next_location partition_keys output_database
                   version_tmp_table) (\<lambda>u.
         bind_w (\<lambda>w. case get_catalog_table output_database version_tmp_table w of
                        (None, w1) \<Rightarrow> (Inl TypeError, w1)
                      | (Some r, w1) \<Rightarrow> (subscript (PDict r) ''Table'', w1)) (\<lambda>tmp.
         bind_w (pure_w (case tmp of
                           PDict version_tmp_table_result \<Rightarrow>
                             build_table_input version_tmp_table_result output_table next_location
                         | _ \<Rightarrow> Inl TypeError)) (\<lambda>table_input.
         bind_w (delete_partitions output_database output_table 25) (\<lambda>u.
         bind_w (copy_partitions output_database version_tmp_table output_database output_table) (\<lambda>u.
         bind_w (glue_update_table output_database table_input) (\<lambda>u.
         pure_w (Inr version_tmp_table)))))))) w0)"

text \<open>\<^verbatim>\<open>write_versioned_parquet\<close> (lines 92-118)\<close>

definition write_versioned_parquet ::
  "'d glue_sink \<Rightarrow> 'd \<Rightarrow> string \<Rightarrow> string list \<Rightarrow> string \<Rightarrow> string \<Rightarrow> world
     \<Rightarrow> (error + unit) \<times> world" where
  "write_versioned_parquet glue_context dyf output_path partition_keys output_database
       output_table w =
     (case get_catalog_table output_database output_table w of
        (None, w1) \<Rightarrow>
          write_parquet glue_context dyf (output_path @ ''/version_0'') partition_keys
            output_database output_table w1
      | (Some existing_target_table, w1) \<Rightarrow>
          bind_w (swap_until_flip glue_context dyf partition_keys output_database output_table
                    existing_target_table)
            (\<lambda>version_tmp_table. glue_delete_table output_database version_tmp_table) w1)"

section \<open>A concrete sink and catalog\<close>

text \<open>
  A frame that carries the table definition and the partitions its rows give rise to,
  and whether the write completes. The sink registers them under the table it is
  configured for, with the location \<open>reg\<close> makes of the sink's path, and then succeeds
  or raises.
\<close>

record frame =
  frame_ok :: bool
  frame_table :: pydict
  frame_partitions :: "pydict list"

definition dir_form :: "string \<Rightarrow> string" where
  "dir_form p = (if suffix ''/'' p then p else p @ ''/'')"

definition demo_sink :: "(string \<Rightarrow> string) \<Rightarrow> frame glue_sink" where
  "demo_sink reg s dyf e =
     (if frame_ok dyf then Inr () else Inl (SinkError ''aborted''),
      (Some (AList.update ''StorageDescriptor''
               (PDict (AList.update ''Location'' (PStr (reg (path s)))
                  (case map_of (frame_table dyf) ''StorageDescriptor'' of
                     Some (PDict d) \<Rightarrow> d | _ \<Rightarrow> [])))
               (AList.update ''Name'' (PStr (catalogTableName s))
                  (AList.update ''DatabaseName'' (PStr (catalogDatabase s)) (frame_table dyf)))),
       map (rehome (catalogDatabase s) (catalogTableName s)) (frame_partitions dyf)))"

definition demo_table :: "string \<Rightarrow> string \<Rightarrow> pydict" where
  "demo_table name l =
     [(''Name'', PStr name),
      (''DatabaseName'', PStr ''db''),
      (''CreateTime'', PInt 1),
      (''UpdateTime'', PInt 2),
      (''CreatedBy'', PStr ''job''),
      (''IsRegisteredWithLakeFormation'', PBool False),
      (''TableType'', PStr ''EXTERNAL_TABLE''),
      (''PartitionKeys'', PList [PStr ''year'']),
      (''StorageDescriptor'', PDict [(''Columns'', PList [PStr ''tile'']), (''Location'', PStr l)])]"

definition demo_partition :: "string \<Rightarrow> string \<Rightarrow> string \<Rightarrow> pydict" where
  "demo_partition t l y =
     [(''Values'', PList [PStr y]),
      (''DatabaseName'', PStr ''db''),
      (''TableName'', PStr t),
      (''CreationTime'', PInt 5),
      (''StorageDescriptor'', PDict [(''Location'', PStr (l @ ''year='' @ y))])]"

definition demo_frame :: "bool \<Rightarrow> frame" where
  "demo_frame ok =
     \<lparr>frame_ok = ok,
      frame_table =
        [(''CreateTime'', PInt 7),
         (''UpdateTime'', PInt 7),
         (''CreatedBy'', PStr ''sink''),
         (''IsRegisteredWithLakeFormation'', PBool False),
         (''TableType'', PStr ''EXTERNAL_TABLE''),
         (''PartitionKeys'', PList [PStr ''year'']),
         (''StorageDescriptor'', PDict [(''Columns'', PList [PStr ''tile'', PStr ''tests''])])],
      frame_partitions =
        [[(''Values'', PList [PStr ''2021'']), (''CreationTime'', PInt 7)],
         [(''Values'', PList [PStr ''2022'']), (''CreationTime'', PInt 7)],
         [(''Values'', PList [PStr ''2023'']), (''CreationTime'', PInt 7)]]\<rparr>"

text \<open>A catalog with the target table \<open>t\<close> of database \<open>db\<close> at a given location and
  with two partitions (\<open>demo_world\<close>: at generation 3), and a catalog without any table.\<close>

definition demo_world_at :: "string \<Rightarrow> nat list \<Rightarrow> world" where
  "demo_world_at l fs =
     \<lparr>databases = [''db'' \<mapsto> [(''Name'', PStr ''db''), (''LocationUri'', PStr ''s3://b/db/'')]],
      tables = [(''db'', ''t'') \<mapsto> demo_table ''t'' l],
      partitions = (\<lambda>k. [])((''db'', ''t'') :=
        [demo_partition ''t'' l ''2019'', demo_partition ''t'' l ''2020'']),
      page_size = 0,
      clock = ''202401011200'',
      faults = fs,
      calls = []\<rparr>"

definition demo_world :: "nat list \<Rightarrow> world" where
  "demo_world fs = demo_world_at ''s3://b/db/t/version_3/'' fs"

definition empty_world :: "nat list \<Rightarrow> world" where
  "empty_world fs =
     \<lparr>databases = [''db'' \<mapsto> [(''Name'', PStr ''db''), (''LocationUri'', PStr ''s3://b/db/'')]],
      tables = Map.empty,
      partitions = (\<lambda>k. []),
      page_size = 0,
      clock = ''202401011200'',
      faults = fs,
      calls = []\<rparr>"

text \<open>A catalog whose target table \<open>t\<close> has \<open>n\<close> partitions and whose staging table \<open>stg\<close>
  has \<open>m\<close> others.\<close>

definition numbered_partitions :: "string \<Rightarrow> nat \<Rightarrow> nat \<Rightarrow> pydict list" where
  "numbered_partitions t k n =
     map (\<lambda>i. [(''Values'', PList [PInt (int i)]),
                (''DatabaseName'', PStr ''db''),
                (''TableName'', PStr t),
                (''CreationTime'', PInt 5)]) [k..<k + n]"

definition bulk_world :: "nat \<Rightarrow> nat \<Rightarrow> world" where
  "bulk_world n m =
     \<lparr>databases = [''db'' \<mapsto> [(''Name'', PStr ''db''), (''LocationUri'', PStr ''s3://b/db/'')]],
      tables = [(''db'', ''t'') \<mapsto> demo_table ''t'' ''s3://b/db/t/version_3/'',
                (''db'', ''stg'') \<mapsto> demo_table ''stg'' ''s3://b/db/t/version_4/''],
      partitions = (\<lambda>k. [])((''db'', ''t'') := numbered_partitions ''t'' 0 n,
                               (''db'', ''stg'') := numbered_partitions ''stg'' 1000 m),
      page_size = 0,
      clock = ''202401011200'',
      faults = [],
      calls = []\<rparr>"

section \<open>Auxiliary predicates\<close>

definition int_char :: "char \<Rightarrow> bool" where
  "int_char ch \<longleftrightarrow> is_space ch \<or> is_digit ch \<or> ch \<in> set ''+-_''"

text \<open>The requests made between two states of the run, none of them a \<^verbatim>\<open>delete_table\<close>.\<close>

definition no_delete_since :: "world \<Rightarrow> world \<Rightarrow> bool" where
  "no_delete_since v v' \<longleftrightarrow>
     (\<exists>cs. calls v' = calls v @ cs \<and> (\<forall>c \<in> set cs. \<forall>d n. c \<noteq> DeleteTable d n))"

text \<open>Two states of the run that differ at most in the partitions of one table and in the
  request log.\<close>

definition only_partitions_of :: "string \<times> string \<Rightarrow> world \<Rightarrow> world \<Rightarrow> bool" where
  "only_partitions_of k v v' \<longleftrightarrow>
     tables v' = tables v \<and> databases v' = databases v \<and> faults v' = faults v
   \<and> page_size v' = page_size v \<and> clock v' = clock v
   \<and> (\<forall>k'. k' \<noteq> k \<longrightarrow> partitions v' k' = partitions v k')"

text \<open>The key tuple of a partition record.\<close>

definition key_tuple :: "pydict \<Rightarrow> pyval option" where
  "key_tuple p = map_of p ''Values''"

text \<open>No request from now on is listed as failing.\<close>

definition no_fault_ahead :: "world \<Rightarrow> bool" where
  "no_fault_ahead v \<longleftrightarrow> (\<forall>i \<in> set (faults v). i < length (calls v))"

section \<open>Properties of the string operations\<close>

lemma split_not_Nil: "split c s \<noteq> []"
  by (induction s) (auto split: list.splits)

lemma split_no_sep: "seg \<in> set (split c s) \<Longrightarrow> c \<notin> set seg"
  by (induction s arbitrary: seg) (auto split: if_splits list.splits)

lemma split_single: "c \<notin> set x \<Longrightarrow> split c x = [x]"
  by (induction x) auto

lemma split_append_sep: "c \<notin> set x \<Longrightarrow> split c (x @ c # rest) = x # split c rest"
  by (induction x) auto

lemma split_join:
  "xs \<noteq> [] \<Longrightarrow> \<forall>x \<in> set xs. c \<notin> set x \<Longrightarrow> split c (join [c] xs) = xs"
  by (induction "[c]" xs rule: join.induct) (auto simp: split_single split_append_sep)

lemma join_snoc: "xs \<noteq> [] \<Longrightarrow> join sep (xs @ [y]) = join sep xs @ sep @ y"
  by (induction sep xs rule: join.induct) auto

lemma digit_val_digit_char: "d < 10 \<Longrightarrow> digit_val (digit_char d) = int d"
  by (auto simp: digit_val_def digit_char_def eval_nat_numeral less_Suc_eq)

lemma is_digit_digit_char: "d < 10 \<Longrightarrow> is_digit (digit_char d)"
  by (auto simp: is_digit_def digit_char_def eval_nat_numeral less_Suc_eq)

lemma digits_not_Nil: "digits n \<noteq> []"
  by (subst digits.simps) simp

lemma digits_all_digit: "ch \<in> set (digits n) \<Longrightarrow> is_digit ch"
proof (induction n arbitrary: ch rule: digits.induct)
  case (1 n)
  then show ?case
    by (subst (asm) (2) digits.simps) (auto simp: is_digit_digit_char split: if_splits)
qed


lemma parse_digits_all_digit:
  "\<forall>ch \<in> set ds. is_digit ch \<Longrightarrow>
   parse_digits acc ds = Inr (foldl (\<lambda>a ch. a * 10 + digit_val ch) acc ds)"
  by (induction acc ds rule: parse_digits.induct) auto

lemma foldl_digits: "foldl (\<lambda>a ch. a * 10 + digit_val ch) 0 (digits n) = int n"
proof (induction n rule: digits.induct)
  case (1 n)
  show ?case
  proof (cases "n < 10")
    case True
    then show ?thesis
      by (subst digits.simps) (simp add: digit_val_digit_char)
  next
    case False
    have "int n = int (n div 10 * 10 + n mod 10)" by simp
    also have "\<dots> = int (n div 10) * 10 + int (n mod 10)"
      by (simp only: of_nat_add of_nat_mult of_nat_numeral)
    finally have "int (n div 10) * 10 + int (n mod 10) = int n" by simp
    with 1 False show ?thesis
      by (subst digits.simps) (simp add: digit_val_digit_char)
  qed
qed

lemma parse_unsigned_digits: "parse_unsigned (digits n) = Inr (int n)"
proof -
  obtain c cs where d: "digits n = c # cs"
    using digits_not_Nil [of n] by (cases "digits n") auto
  have all: "\<forall>ch \<in> set (digits n). is_digit ch"
    using digits_all_digit by blast
  then have "is_digit c" by (simp add: d)
  then show ?thesis
    using parse_digits_all_digit [OF all, of 0] by (simp add: parse_unsigned_def d foldl_digits [symmetric])
qed

lemma is_digit_not_space: "is_digit ch \<Longrightarrow> \<not> is_space ch"
  by (auto simp: is_digit_def is_space_def)

lemma strip_id: "s \<noteq> [] \<Longrightarrow> \<not> is_space (hd s) \<Longrightarrow> \<not> is_space (last s) \<Longrightarrow> strip s = s"
proof -
  assume a: "s \<noteq> []" "\<not> is_space (hd s)" "\<not> is_space (last s)"
  then have 1: "dropWhile is_space s = s"
    by (simp add: dropWhile_eq_self_iff)
  from a have "dropWhile is_space (rev s) = rev s"
    by (simp add: dropWhile_eq_self_iff hd_rev)
  with 1 show ?thesis by (simp add: strip_def)
qed

lemma py_int_py_str: "py_int (py_str i) = Inr i"
proof (cases "i < 0")
  case True
  let ?ds = "digits (nat (- i))"
  have "last (CHR ''-'' # ?ds) = last ?ds" using digits_not_Nil by simp
  moreover have "is_digit (last ?ds)" using digits_not_Nil digits_all_digit last_in_set by blast
  ultimately have "strip (CHR ''-'' # ?ds) = CHR ''-'' # ?ds"
    by (intro strip_id) (auto simp: is_space_def dest: is_digit_not_space)
  with True show ?thesis
    by (simp add: py_int_def py_str_def parse_unsigned_digits bind_err_def)
next
  case False
  let ?ds = "digits (nat i)"
  obtain c cs where d: "?ds = c # cs"
    using digits_not_Nil [of "nat i"] by (cases ?ds) auto
  have c: "is_digit c" using digits_all_digit [of c "nat i"] by (simp add: d)
  have "is_digit (last ?ds)" using digits_not_Nil digits_all_digit last_in_set by blast
  then have "strip ?ds = ?ds"
    using c by (intro strip_id) (auto simp: d dest: is_digit_not_space)
  moreover have "c \<noteq> CHR ''-''" "c \<noteq> CHR ''+''" using c by (auto simp: is_digit_def)
  ultimately show ?thesis
    using False parse_unsigned_digits [of "nat i"] by (simp add: py_int_def py_str_def d)
qed

lemma parse_digits_chars: "parse_digits acc s = Inr n \<Longrightarrow> ch \<in> set s \<Longrightarrow> int_char ch"
  by (induction acc s arbitrary: n rule: parse_digits.induct) (auto simp: int_char_def split: if_splits)

lemma parse_unsigned_chars: "parse_unsigned s = Inr n \<Longrightarrow> ch \<in> set s \<Longrightarrow> int_char ch"
  by (auto simp: parse_unsigned_def split: list.splits if_splits dest: parse_digits_chars)

lemma set_strip: "ch \<in> set s \<Longrightarrow> is_space ch \<or> ch \<in> set (strip s)"
proof -
  assume a: "ch \<in> set s"
  have 1: "set xs = set (takeWhile is_space xs) \<union> set (dropWhile is_space xs)" for xs
    by (metis set_append takeWhile_dropWhile_id)
  have 2: "x \<in> set (takeWhile is_space xs) \<Longrightarrow> is_space x" for x xs
    by (auto dest: set_takeWhileD)
  show ?thesis
  proof (cases "is_space ch")
    case True then show ?thesis by simp
  next
    case False
    with a have "ch \<in> set (dropWhile is_space s)" using 1 [of s] 2 by auto
    then have "ch \<in> set (rev (dropWhile is_space s))" by simp
    with False have "ch \<in> set (dropWhile is_space (rev (dropWhile is_space s)))"
      using 1 [of "rev (dropWhile is_space s)"] 2 by auto
    then show ?thesis by (simp add: strip_def)
  qed
qed

lemma py_int_chars: "py_int s = Inr n \<Longrightarrow> ch \<in> set s \<Longrightarrow> int_char ch"
proof -
  assume p: "py_int s = Inr n" and m: "ch \<in> set s"
  have "ch' \<in> set (strip s) \<Longrightarrow> int_char ch'" for ch'
    using p
    by (auto simp: py_int_def bind_err_def int_char_def [of "CHR ''-''"] int_char_def [of "CHR ''+''"]
        split: list.splits if_splits sum.splits dest: parse_unsigned_chars)
  with set_strip [OF m] show ?thesis by (auto simp: int_char_def)
qed

lemma replace_absent: "hd old \<notin> set s \<Longrightarrow> replace old new s = s"
  by (induction s) (auto simp: prefix_def Cons_eq_append_conv)

lemma replace_version_prefix:
  "CHR ''v'' \<notin> set s \<Longrightarrow> replace ''version_'' '''' (''version_'' @ s) = s"
  using replace_absent [of "''version_''" s "''''"] by simp

lemma py_int_no_v: "py_int s = Inr n \<Longrightarrow> CHR ''v'' \<notin> set s"
  by (auto dest!: py_int_chars simp: int_char_def is_space_def is_digit_def)

lemma py_str_no_slash: "CHR ''/'' \<notin> set (py_str i)"
  by (auto simp: py_str_def is_digit_def dest!: digits_all_digit)

lemma digit_char_zero: "d < 10 \<Longrightarrow> digit_char d = CHR ''0'' \<Longrightarrow> d = 0"
  by (auto simp: digit_char_def eval_nat_numeral less_Suc_eq)

lemma digits_leading_zero: "hd (digits m) = CHR ''0'' \<Longrightarrow> m = 0"
proof (induction m rule: digits.induct)
  case (1 n)
  show ?case
  proof (cases "n < 10")
    case True
    with "1.prems" show ?thesis
      by (subst (asm) digits.simps) (simp add: digit_char_zero)
  next
    case False
    with "1.prems" have "hd (digits (n div 10)) = CHR ''0''"
      by (subst (asm) digits.simps) (simp add: digits_not_Nil)
    with "1.IH" False have "n div 10 = 0" by simp
    with False show ?thesis by simp
  qed
qed

lemma py_str_canonical:
  "py_str i \<noteq> [] \<and> (\<forall>c \<in> set (py_str i). is_digit c \<or> c = CHR ''-'')
   \<and> (hd (py_str i) = CHR ''0'' \<longrightarrow> py_str i = ''0'')"
proof -
  have "digits 0 = ''0''"
    by (subst digits.simps) (simp add: digit_char_def)
  then have "hd (digits m) = CHR ''0'' \<longrightarrow> digits m = ''0''" for m
    using digits_leading_zero [of m] by auto
  then show ?thesis
    by (auto simp: py_str_def digits_not_Nil dest: digits_all_digit)
qed

section \<open>Location versioning: the next generation\<close>

text \<open>
  Claim C1. For a target table whose storage location, split on \<open>/\<close>, has the
  second-to-last segment \<open>version_\<close> followed by text that \<^verbatim>\<open>int\<close> reads as the
  integer \<open>n\<close>, \<^verbatim>\<open>calculate_next_location\<close> returns a location whose segments before
  the version segment are those of the input, whose version segment is \<open>version_\<close>
  followed by the decimal numeral of \<open>n + 1\<close> (text of digits, after a minus sign when
  negative, without a leading zero, that \<^verbatim>\<open>int\<close> reads as \<open>n + 1\<close>), and which ends in
  the separator.
\<close>

theorem next_location_increments_version:
  assumes tbl: "map_of existing_target_table ''Table'' = Some (PDict curr_table)"
    and sd: "map_of curr_table ''StorageDescriptor'' = Some (PDict sd)"
    and loc: "map_of sd ''Location'' = Some (PStr l)"
    and segs: "split CHR ''/'' l = pre @ [''version_'' @ s, lst]"
    and n: "py_int s = Inr n"
  shows "\<exists>next_location v.
           calculate_next_location existing_target_table = Inr next_location
         \<and> split CHR ''/'' next_location = pre @ [''version_'' @ v, '''']
         \<and> py_int v = Inr (n + 1)
         \<and> v \<noteq> []
         \<and> (\<forall>c \<in> set v. is_digit c \<or> c = CHR ''-'')
         \<and> (hd v = CHR ''0'' \<longrightarrow> v = ''0'')
         \<and> v = py_str (n + 1)
         \<and> suffix ''/'' next_location"
proof -
  let ?v = "''version_'' @ py_str (n + 1)"
  let ?out = "join ''/'' (pre @ [?v, ''''])"
  have len: "length (split CHR ''/'' l) - 2 = length pre" "\<not> length (split CHR ''/'' l) < 2"
    by (simp_all add: segs)
  have nth: "split CHR ''/'' l ! length pre = ''version_'' @ s"
    by (simp add: segs)
  have rep: "replace ''version_'' '''' (''version_'' @ s) = s"
    using py_int_no_v [OF n] by (rule replace_version_prefix)
  have tk: "take (length pre) (split CHR ''/'' l) = pre"
    by (simp add: segs)
  have "calculate_next_location existing_target_table
      = bind_err (py_int (replace ''version_'' '''' (''version_'' @ s)))
          (\<lambda>i. Inr (join ''/'' (pre @ [''version_'' @ py_str (i + 1), ''''])))"
    unfolding calculate_next_location_def
    by (simp only: subscript_def bind_err_def tbl sd loc Let_def len nth tk
        pyval.case option.case sum.case if_False)
  then have calc: "calculate_next_location existing_target_table = Inr ?out"
    by (simp only: rep n bind_err_def sum.case)
  have "\<forall>x \<in> set pre. CHR ''/'' \<notin> set x"
    using split_no_sep [of _ "CHR ''/''" l] by (simp add: segs)
  then have "\<forall>x \<in> set (pre @ [?v, '''']). CHR ''/'' \<notin> set x"
    using py_str_no_slash [of "n + 1"] by auto
  then have sp: "split CHR ''/'' ?out = pre @ [?v, '''']"
    by (intro split_join) simp_all
  have "?out = join ''/'' (pre @ [?v]) @ ''/'' @ ''''"
    using join_snoc [of "pre @ [?v]" "''/''" "''''"] by simp
  then have sf: "suffix ''/'' ?out"
    by (simp add: suffix_def)
  note can = py_str_canonical [of "n + 1"]
  show ?thesis
    apply (rule exI [of _ ?out], rule exI [of _ "py_str (n + 1)"])
    apply (intro conjI)
           apply (fact calc sp py_int_py_str can [THEN conjunct1]
        can [THEN conjunct2, THEN conjunct1] can [THEN conjunct2, THEN conjunct2] refl sf)+
    done
qed

theorem next_location_increments_version_witness:
  "split CHR ''/'' ''s3://b/db/t/version_9/'' = [''s3:'', '''', ''b'', ''db'', ''t''] @ [''version_'' @ ''9'', '''']
   \<and> py_int ''9'' = Inr 9
   \<and> calculate_next_location [(''Table'', PDict (demo_table ''t'' ''s3://b/db/t/version_9/''))]
       = Inr ''s3://b/db/t/version_10/''
   \<and> split CHR ''/'' ''s3://b/db/t/version_10/'' = [''s3:'', '''', ''b'', ''db'', ''t'', ''version_10'', '''']
   \<and> (\<exists>next_location v.
         calculate_next_location [(''Table'', PDict (demo_table ''t'' ''s3://b/db/t/version_9/''))] = Inr next_location
       \<and> split CHR ''/'' next_location = [''s3:'', '''', ''b'', ''db'', ''t''] @ [''version_'' @ v, '''']
       \<and> py_int v = Inr (9 + 1)
       \<and> v \<noteq> []
       \<and> (\<forall>c \<in> set v. is_digit c \<or> c = CHR ''-'')
       \<and> (hd v = CHR ''0'' \<longrightarrow> v = ''0'')
       \<and> v = py_str (9 + 1)
       \<and> suffix ''/'' next_location)"
proof -
  have s: "split CHR ''/'' ''s3://b/db/t/version_9/'' = [''s3:'', '''', ''b'', ''db'', ''t''] @ [''version_'' @ ''9'', '''']"
    by simp
  have n: "py_int ''9'' = Inr 9"
    by (simp add: py_int_def strip_def is_space_def parse_unsigned_def is_digit_def digit_val_def)
  have t1: "map_of [(''Table'', PDict (demo_table ''t'' ''s3://b/db/t/version_9/''))] ''Table''
      = Some (PDict (demo_table ''t'' ''s3://b/db/t/version_9/''))"
    by simp
  have t2: "map_of (demo_table ''t'' ''s3://b/db/t/version_9/'') ''StorageDescriptor''
      = Some (PDict [(''Columns'', PList [PStr ''tile'']), (''Location'', PStr ''s3://b/db/t/version_9/'')])"
    by (simp add: demo_table_def)
  have t3: "map_of [(''Columns'', PList [PStr ''tile'']), (''Location'', PStr ''s3://b/db/t/version_9/'')] ''Location''
      = Some (PStr ''s3://b/db/t/version_9/'')"
    by simp
  have c: "calculate_next_location [(''Table'', PDict (demo_table ''t'' ''s3://b/db/t/version_9/''))]
       = Inr ''s3://b/db/t/version_10/''"
    by code_simp
  have s10: "split CHR ''/'' ''s3://b/db/t/version_10/'' = [''s3:'', '''', ''b'', ''db'', ''t'', ''version_10'', '''']"
    by simp
  show ?thesis
    by (intro conjI s n c s10 next_location_increments_version [OF t1 t2 t3 s n])
qed

section \<open>Properties of the catalog operations\<close>


lemma for_each_rel:
  assumes run: "for_each body xs w = (Inr u, w')"
    and step: "\<And>x v v' u'. x \<in> set xs \<Longrightarrow> body x v = (Inr u', v') \<Longrightarrow> R v v'"
    and refl: "\<And>v. R v v"
    and trans: "\<And>a b c. R a b \<Longrightarrow> R b c \<Longrightarrow> R a c"
  shows "R w w'"
  using run step
proof (induction xs arbitrary: w)
  case Nil
  then show ?case by (simp add: refl)
next
  case (Cons x xs)
  from Cons.prems(1) obtain u1 w1 where b: "body x w = (Inr u1, w1)" and r: "for_each body xs w1 = (Inr u, w')"
    by (auto split: prod.splits sum.splits)
  have "R w w1" using Cons.prems(2) [of x w u1 w1] b by simp
  moreover have "R w1 w'"
  proof (rule Cons.IH [OF r])
    fix y v v' u'
    assume "y \<in> set xs" "body y v = (Inr u', v')"
    then show "R v v'" using Cons.prems(2) [of y v u' v'] by simp
  qed
  ultimately show ?case by (rule trans)
qed

lemma for_each_pres:
  assumes run: "for_each body xs w = (Inr u, w')"
    and pres: "\<And>y v v' u'. y \<in> set xs \<Longrightarrow> body y v = (Inr u', v') \<Longrightarrow> P v \<Longrightarrow> P v'"
    and init: "P w"
  shows "P w'"
proof -
  have "P w \<longrightarrow> P w'"
    by (rule for_each_rel [OF run, where R = "\<lambda>a b. P a \<longrightarrow> P b"]) (use pres in blast)+
  with init show ?thesis by simp
qed

lemma for_each_post:
  assumes run: "for_each body xs w = (Inr u, w')"
    and step: "\<And>x v v' u'. x \<in> set xs \<Longrightarrow> body x v = (Inr u', v') \<Longrightarrow> Q x v'"
    and pres: "\<And>x y v v' u'. y \<in> set xs \<Longrightarrow> body y v = (Inr u', v') \<Longrightarrow> Q x v \<Longrightarrow> Q x v'"
  shows "\<forall>x \<in> set xs. Q x w'"
  using run step pres
proof (induction xs arbitrary: w)
  case Nil
  then show ?case by simp
next
  case (Cons x xs)
  from Cons.prems(1) obtain u1 w1 where b: "body x w = (Inr u1, w1)" and r: "for_each body xs w1 = (Inr u, w')"
    by (auto split: prod.splits sum.splits)
  have q: "Q x w1" using Cons.prems(2) [of x w u1 w1] b by simp
  have keep: "Q x w'"
  proof (rule for_each_pres [OF r, where P = "Q x"])
    fix y v v' u'
    assume "y \<in> set xs" "body y v = (Inr u', v')" "Q x v"
    then show "Q x v'" using Cons.prems(3) [of y v u' v' x] by simp
  next
    show "Q x w1" by (rule q)
  qed
  have "\<forall>z \<in> set xs. Q z w'"
  proof (rule Cons.IH [OF r])
    fix z v v' u'
    assume "z \<in> set xs" "body z v = (Inr u', v')"
    then show "Q z v'" using Cons.prems(2) [of z v u' v'] by simp
  next
    fix z y v v' u'
    assume "y \<in> set xs" "body y v = (Inr u', v')" "Q z v"
    then show "Q z v'" using Cons.prems(3) [of y v u' v' z] by simp
  qed
  with keep show ?case by simp
qed

lemma glue_get_table_result:
  "glue_get_table db name w =
     (if length (calls w) \<in> set (faults w) then Inl ServiceError
      else case tables w (db, name) of None \<Rightarrow> Inl EntityNotFound
           | Some t \<Rightarrow> Inr [(''Table'', PDict t)],
      w\<lparr>calls := calls w @ [GetTable db name]\<rparr>)"
  by (simp add: glue_get_table_def request_def split: option.splits bool.splits)

lemma get_catalog_table_result:
  "get_catalog_table db name w =
     (if length (calls w) \<in> set (faults w) then None
      else map_option (\<lambda>t. [(''Table'', PDict t)]) (tables w (db, name)),
      w\<lparr>calls := calls w @ [GetTable db name]\<rparr>)"
  by (simp add: get_catalog_table_def glue_get_table_result split: option.splits)

lemma glue_get_partitions_ok:
  "glue_get_partitions db t n w = (Inr pgs, w') \<Longrightarrow>
     pgs = pages n (partitions w (db, t)) \<and> w' = w\<lparr>calls := calls w @ [GetPartitions db t]\<rparr>"
  by (auto simp: glue_get_partitions_def request_def split: if_splits bool.splits)

lemma glue_batch_delete_ok:
  "glue_batch_delete_partition db t td w = (Inr u, w') \<Longrightarrow>
     tables w' = tables w
   \<and> partitions w' = (partitions w)((db, t) :=
        filter (\<lambda>p. map_of p ''Values'' \<notin> set (map (\<lambda>d. map_of d ''Values'') td)) (partitions w (db, t)))
   \<and> calls w' = calls w @ [BatchDeletePartition db t td]
   \<and> faults w' = faults w \<and> page_size w' = page_size w \<and> clock w' = clock w
   \<and> length td \<le> 25"
  by (auto simp: glue_batch_delete_partition_def request_def split: if_splits bool.splits)

lemma glue_batch_create_ok:
  "glue_batch_create_partition db t ins w = (Inr u, w') \<Longrightarrow>
     tables w' = tables w
   \<and> partitions w' = (partitions w)((db, t) := foldl (add_partition db t) (partitions w (db, t)) ins)
   \<and> calls w' = calls w @ [BatchCreatePartition db t ins]
   \<and> faults w' = faults w \<and> page_size w' = page_size w \<and> clock w' = clock w
   \<and> length ins \<le> 100"
  by (auto simp: glue_batch_create_partition_def request_def split: if_splits bool.splits)

lemma glue_update_table_ok:
  "glue_update_table db ti w = (Inr u, w') \<Longrightarrow>
     \<exists>name. map_of ti ''Name'' = Some (PStr name) \<and> tables w (db, name) \<noteq> None
   \<and> tables w' = (tables w)((db, name) \<mapsto> AList.update ''DatabaseName'' (PStr db) ti)
   \<and> partitions w' = partitions w
   \<and> calls w' = calls w @ [UpdateTable db ti]"
  by (auto simp: glue_update_table_def request_def split: if_splits option.splits pyval.splits bool.splits)

lemma write_parquet_frame:
  "write_parquet gc dyf p pk db t w = (r, w') \<Longrightarrow>
     (\<forall>k. k \<noteq> (db, t) \<longrightarrow> tables w' k = tables w k \<and> partitions w' k = partitions w k)
   \<and> calls w' = calls w @ [WriteFrame \<lparr>connection_type = ''s3'', path = p, enableUpdateCatalog = True,
        partitionKeys = pk, format = ''glueparquet'', catalogDatabase = db, catalogTableName = t\<rparr>]
   \<and> faults w' = faults w \<and> page_size w' = page_size w \<and> clock w' = clock w"
  by (auto simp: write_parquet_def Let_def split: prod.splits)


lemma swap_next_fail:
  "calculate_next_location ett = Inl e \<Longrightarrow> swap_until_flip gc dyf pk db t ett w = (Inl e, w)"
  by (simp add: swap_until_flip_def bind_w_def pure_w_def)

lemma swap_write_fail:
  "calculate_next_location ett = Inr nl \<Longrightarrow>
   write_parquet gc dyf nl pk db (t @ ''_version_tmp_'' @ clock w) w = (Inl e, w1) \<Longrightarrow>
   swap_until_flip gc dyf pk db t ett w = (Inl e, w1)"
  by (simp add: swap_until_flip_def bind_w_def pure_w_def)

lemma swap_until_flip_ok:
  assumes "swap_until_flip gc dyf pk db t ett w0 = (Inr tmp, w')"
  shows "\<exists>nl u1 w1 staged w2 ti u3 w3 u4 w4 u5.
           tmp = t @ ''_version_tmp_'' @ clock w0
         \<and> calculate_next_location ett = Inr nl
         \<and> write_parquet gc dyf nl pk db tmp w0 = (Inr u1, w1)
         \<and> length (calls w1) \<notin> set (faults w1)
         \<and> tables w1 (db, tmp) = Some staged
         \<and> w2 = w1\<lparr>calls := calls w1 @ [GetTable db tmp]\<rparr>
         \<and> build_table_input staged t nl = Inr ti
         \<and> delete_partitions db t 25 w2 = (Inr u3, w3)
         \<and> copy_partitions db tmp db t w3 = (Inr u4, w4)
         \<and> glue_update_table db ti w4 = (Inr u5, w')"
  using assms
  unfolding swap_until_flip_def Let_def bind_w_def pure_w_def get_catalog_table_result
  by (auto simp: subscript_def split: sum.splits prod.splits option.splits if_splits pyval.splits)

lemma parse_digits_error: "parse_digits acc s = Inl e \<Longrightarrow> e = ValueError"
  by (induction acc s rule: parse_digits.induct) (auto split: if_splits)

lemma py_int_error: "py_int s = Inl e \<Longrightarrow> e = ValueError"
  by (auto simp: py_int_def parse_unsigned_def bind_err_def
      split: list.splits if_splits sum.splits dest: parse_digits_error)

section \<open>First write\<close>

text \<open>
  Claim C5. When the target table is absent from the catalog, the only request after the
  lookup is one write of the sink, to the path \<open>root/version_0\<close> and configured for the
  target table's own name. The outcome of the invocation is the outcome of that write, and
  the catalog entry of the target table afterwards (definition and partitions) is the one
  the sink registered, starting from no definition. No staging table is written (no other
  catalog entry changes) and no partition is deleted (the log holds no other request).
\<close>

theorem first_write_goes_to_version_0:
  assumes absent: "tables w (db, t) = None"
  shows "write_versioned_parquet gc dyf root pk db t w
           = write_parquet gc dyf (root @ ''/version_0'') pk db t (w\<lparr>calls := calls w @ [GetTable db t]\<rparr>)
       \<and> calls (snd (write_versioned_parquet gc dyf root pk db t w))
           = calls w @ [GetTable db t,
                        WriteFrame \<lparr>connection_type = ''s3'', path = root @ ''/version_0'',
                          enableUpdateCatalog = True, partitionKeys = pk, format = ''glueparquet'',
                          catalogDatabase = db, catalogTableName = t\<rparr>]
       \<and> (fst (write_versioned_parquet gc dyf root pk db t w),
          tables (snd (write_versioned_parquet gc dyf root pk db t w)) (db, t),
          partitions (snd (write_versioned_parquet gc dyf root pk db t w)) (db, t))
           = gc \<lparr>connection_type = ''s3'', path = root @ ''/version_0'',
                  enableUpdateCatalog = True, partitionKeys = pk, format = ''glueparquet'',
                  catalogDatabase = db, catalogTableName = t\<rparr> dyf (None, partitions w (db, t))
       \<and> (\<forall>k. k \<noteq> (db, t) \<longrightarrow>
             tables (snd (write_versioned_parquet gc dyf root pk db t w)) k = tables w k
           \<and> partitions (snd (write_versioned_parquet gc dyf root pk db t w)) k = partitions w k)"
proof -
  let ?w0 = "w\<lparr>calls := calls w @ [GetTable db t]\<rparr>"
  let ?snk = "\<lparr>connection_type = ''s3'', path = root @ ''/version_0'',
                  enableUpdateCatalog = True, partitionKeys = pk, format = ''glueparquet'',
                  catalogDatabase = db, catalogTableName = t\<rparr>"
  have run: "write_versioned_parquet gc dyf root pk db t w
           = write_parquet gc dyf (root @ ''/version_0'') pk db t ?w0"
    by (simp add: write_versioned_parquet_def get_catalog_table_result absent)
  obtain r w' where w: "write_parquet gc dyf (root @ ''/version_0'') pk db t ?w0 = (r, w')"
    by (cases "write_parquet gc dyf (root @ ''/version_0'') pk db t ?w0")
  obtain r' t' ps' where g: "gc ?snk dyf (None, partitions w (db, t)) = (r', t', ps')"
    by (cases "gc ?snk dyf (None, partitions w (db, t))")
  have e: "r = r' \<and> tables w' (db, t) = t' \<and> partitions w' (db, t) = ps'"
    using w g by (auto simp: write_parquet_def Let_def absent)
  show ?thesis
    using write_parquet_frame [OF w] e by (simp add: run w g)
qed

theorem first_write_goes_to_version_0_witness:
  "tables (empty_world []) (''db'', ''t'') = None
   \<and> calls (snd (write_versioned_parquet (demo_sink dir_form) (demo_frame True) ''s3://b/db/t'' [''year''] ''db'' ''t'' (empty_world [])))
       = [GetTable ''db'' ''t'',
          WriteFrame \<lparr>connection_type = ''s3'', path = ''s3://b/db/t/version_0'',
            enableUpdateCatalog = True, partitionKeys = [''year''], format = ''glueparquet'',
            catalogDatabase = ''db'', catalogTableName = ''t''\<rparr>]
   \<and> fst (write_versioned_parquet (demo_sink dir_form) (demo_frame True) ''s3://b/db/t'' [''year''] ''db'' ''t'' (empty_world [])) = Inr ()
   \<and> (case tables (snd (write_versioned_parquet (demo_sink dir_form) (demo_frame True) ''s3://b/db/t'' [''year''] ''db'' ''t'' (empty_world []))) (''db'', ''t'') of
         None \<Rightarrow> False
       | Some d \<Rightarrow> map_of d ''Name'' = Some (PStr ''t'')
                 \<and> map_of d ''StorageDescriptor''
                     = Some (PDict [(''Columns'', PList [PStr ''tile'', PStr ''tests'']),
                                    (''Location'', PStr ''s3://b/db/t/version_0/'')]))
   \<and> map key_tuple (partitions (snd (write_versioned_parquet (demo_sink dir_form) (demo_frame True) ''s3://b/db/t'' [''year''] ''db'' ''t'' (empty_world []))) (''db'', ''t''))
       = [Some (PList [PStr ''2021'']), Some (PList [PStr ''2022'']), Some (PList [PStr ''2023''])]
   \<and> tables (snd (write_versioned_parquet (demo_sink dir_form) (demo_frame True) ''s3://b/db/t'' [''year''] ''db'' ''t'' (empty_world []))) (''db'', ''t_version_tmp_202401011200'') = None"
proof -
  define R where "R = write_versioned_parquet (demo_sink dir_form) (demo_frame True) ''s3://b/db/t'' [''year''] ''db'' ''t'' (empty_world [])"
  define S where "S = demo_sink dir_form \<lparr>connection_type = ''s3'', path = ''s3://b/db/t'' @ ''/version_0'',
            enableUpdateCatalog = True, partitionKeys = [''year''], format = ''glueparquet'',
            catalogDatabase = ''db'', catalogTableName = ''t''\<rparr> (demo_frame True) (None, partitions (empty_world []) (''db'', ''t''))"
  have h: "tables (empty_world []) (''db'', ''t'') = None"
    by (simp add: empty_world_def)
  have c: "calls (empty_world []) = []"
    by (simp add: empty_world_def)
  note T = first_write_goes_to_version_0 [OF h, of "demo_sink dir_form" "demo_frame True" "''s3://b/db/t''" "[''year'']",
      folded R_def S_def]
  have t1: "calls (snd R) = calls (empty_world []) @ [GetTable ''db'' ''t'',
          WriteFrame \<lparr>connection_type = ''s3'', path = ''s3://b/db/t'' @ ''/version_0'',
            enableUpdateCatalog = True, partitionKeys = [''year''], format = ''glueparquet'',
            catalogDatabase = ''db'', catalogTableName = ''t''\<rparr>]"
    using T by (rule conjunct1 [OF conjunct2])
  have t2: "(fst R, tables (snd R) (''db'', ''t''), partitions (snd R) (''db'', ''t'')) = S"
    using T by (rule conjunct1 [OF conjunct2 [OF conjunct2]])
  have t3: "tables (snd R) (''db'', ''t_version_tmp_202401011200'') = tables (empty_world []) (''db'', ''t_version_tmp_202401011200'')"
    using T [THEN conjunct2, THEN conjunct2, THEN conjunct2] by simp
  have s1: "fst S = Inr ()"
    unfolding S_def by (simp add: demo_sink_def demo_frame_def)
  have d: "dir_form ''s3://b/db/t/version_0'' = ''s3://b/db/t/version_0/''"
    by code_simp
  have s2: "(case fst (snd S) of
         None \<Rightarrow> False
       | Some d \<Rightarrow> map_of d ''Name'' = Some (PStr ''t'')
                 \<and> map_of d ''StorageDescriptor''
                     = Some (PDict [(''Columns'', PList [PStr ''tile'', PStr ''tests'']),
                                    (''Location'', PStr ''s3://b/db/t/version_0/'')]))"
    unfolding S_def by (simp add: demo_sink_def demo_frame_def d)
  have s3: "map key_tuple (snd (snd S)) = [Some (PList [PStr ''2021'']), Some (PList [PStr ''2022'']), Some (PList [PStr ''2023''])]"
    unfolding S_def by (simp add: demo_sink_def demo_frame_def key_tuple_def rehome_def)
  have e: "fst R = fst S" "tables (snd R) (''db'', ''t'') = fst (snd S)" "partitions (snd R) (''db'', ''t'') = snd (snd S)"
    using t2 [symmetric] by simp_all
  have n: "tables (empty_world []) (''db'', ''t_version_tmp_202401011200'') = None"
    by (simp add: empty_world_def)
  show ?thesis
    unfolding R_def [symmetric]
    using h t1 c s1 s2 s3 t3 n by (simp add: e)
qed

section \<open>Table lookup\<close>

text \<open>
  Claim C7. \<^verbatim>\<open>get_catalog_table\<close> answers \<^verbatim>\<open>None\<close> for every exception of
  \<^verbatim>\<open>get_table\<close>. In the catalog \<open>demo_world [0]\<close> the target table exists, and the
  first request, the lookup's \<^verbatim>\<open>get_table\<close>, fails with a service error: the lookup
  answers \<^verbatim>\<open>None\<close>, as it does for a catalog without the table, and the invocation
  takes the first-write branch, writing to \<open>version_0\<close> under the name of the existing
  target, and ends without an error.
\<close>

theorem lookup_conflates_transport_error:
  "tables (demo_world [0]) (''db'', ''t'') = Some (demo_table ''t'' ''s3://b/db/t/version_3/'')
   \<and> faults (demo_world [0]) = [0]
   \<and> glue_get_table ''db'' ''t'' (demo_world [0])
       = (Inl ServiceError, (demo_world [0])\<lparr>calls := [GetTable ''db'' ''t'']\<rparr>)
   \<and> fst (get_catalog_table ''db'' ''t'' (demo_world [0])) = None
   \<and> fst (get_catalog_table ''db'' ''t'' (empty_world [])) = None
   \<and> fst (write_versioned_parquet (demo_sink dir_form) (demo_frame True) ''s3://b/db/t'' [''year''] ''db'' ''t'' (demo_world [0]))
       = Inr ()
   \<and> calls (snd (write_versioned_parquet (demo_sink dir_form) (demo_frame True) ''s3://b/db/t'' [''year''] ''db'' ''t'' (demo_world [0])))
       = [GetTable ''db'' ''t'',
          WriteFrame \<lparr>connection_type = ''s3'', path = ''s3://b/db/t/version_0'',
            enableUpdateCatalog = True, partitionKeys = [''year''], format = ''glueparquet'',
            catalogDatabase = ''db'', catalogTableName = ''t''\<rparr>]"
  by (simp add: demo_world_def demo_world_at_def empty_world_def write_versioned_parquet_def
      get_catalog_table_def glue_get_table_def request_def
      write_parquet_def demo_sink_def demo_frame_def Let_def)


lemma calculate_next_location_cases:
  assumes sd: "map_of tdef ''StorageDescriptor'' = Some (PDict sd)"
    and loc: "map_of sd ''Location'' = Some (PStr l)"
  shows "calculate_next_location [(''Table'', PDict tdef)] =
     (if length (split CHR ''/'' l) < 2 then Inl IndexError
      else case py_int (replace ''version_'' '''' (split CHR ''/'' l ! (length (split CHR ''/'' l) - 2))) of
             Inl e \<Rightarrow> Inl ValueError
           | Inr n \<Rightarrow> Inr (join ''/'' (take (length (split CHR ''/'' l) - 2) (split CHR ''/'' l)
                                       @ [''version_'' @ py_str (n + 1), ''''])))"
  unfolding calculate_next_location_def
  by (auto simp: subscript_def bind_err_def sd loc Let_def split: sum.splits dest: py_int_error)

section \<open>Locations that carry no generation\<close>

text \<open>
  Claim C6, as the code has it. For an existing target table, the next-location
  computation raises IndexError when the location has fewer than two segments, and
  ValueError when it has two or more and its second-to-last segment, with every
  occurrence of \<open>version_\<close> removed, is not text that \<^verbatim>\<open>int\<close> reads; in both cases the
  invocation ends with that error after the lookup alone: nothing is written and the
  catalog is unchanged. It raises in no other case.
\<close>

theorem malformed_location_aborts_before_write:
  assumes found: "tables w (db, t) = Some tdef"
    and served: "length (calls w) \<notin> set (faults w)"
    and sd: "map_of tdef ''StorageDescriptor'' = Some (PDict sd)"
    and loc: "map_of sd ''Location'' = Some (PStr l)"
  shows "(length (split CHR ''/'' l) < 2 \<longrightarrow>
            calculate_next_location [(''Table'', PDict tdef)] = Inl IndexError
          \<and> write_versioned_parquet gc dyf root pk db t w
              = (Inl IndexError, w\<lparr>calls := calls w @ [GetTable db t]\<rparr>))
       \<and> (2 \<le> length (split CHR ''/'' l)
          \<and> (\<exists>e. py_int (replace ''version_'' ''''
                     (split CHR ''/'' l ! (length (split CHR ''/'' l) - 2))) = Inl e) \<longrightarrow>
            calculate_next_location [(''Table'', PDict tdef)] = Inl ValueError
          \<and> write_versioned_parquet gc dyf root pk db t w
              = (Inl ValueError, w\<lparr>calls := calls w @ [GetTable db t]\<rparr>))
       \<and> ((\<exists>e. calculate_next_location [(''Table'', PDict tdef)] = Inl e)
          \<longleftrightarrow> (length (split CHR ''/'' l) < 2
               \<or> (\<exists>e. py_int (replace ''version_'' ''''
                        (split CHR ''/'' l ! (length (split CHR ''/'' l) - 2))) = Inl e)))"
proof -
  have abort: "write_versioned_parquet gc dyf root pk db t w = (Inl e, w\<lparr>calls := calls w @ [GetTable db t]\<rparr>)"
    if "calculate_next_location [(''Table'', PDict tdef)] = Inl e" for e
    using that
    by (simp add: write_versioned_parquet_def get_catalog_table_result found served
        swap_next_fail bind_w_def)
  have a: "calculate_next_location [(''Table'', PDict tdef)] = Inl IndexError"
    if "length (split CHR ''/'' l) < 2"
    using that by (simp add: calculate_next_location_cases [OF sd loc])
  have b: "calculate_next_location [(''Table'', PDict tdef)] = Inl ValueError"
    if "2 \<le> length (split CHR ''/'' l)"
      "py_int (replace ''version_'' '''' (split CHR ''/'' l ! (length (split CHR ''/'' l) - 2))) = Inl e" for e
    using that by (simp add: calculate_next_location_cases [OF sd loc])
  have c: "(\<exists>e. calculate_next_location [(''Table'', PDict tdef)] = Inl e)
          \<longleftrightarrow> (length (split CHR ''/'' l) < 2
               \<or> (\<exists>e. py_int (replace ''version_'' ''''
                        (split CHR ''/'' l ! (length (split CHR ''/'' l) - 2))) = Inl e))"
    by (auto simp: calculate_next_location_cases [OF sd loc] split: if_splits sum.splits)
  show ?thesis
    using a b c abort by blast
qed

theorem malformed_location_aborts_before_write_witness:
  "tables (demo_world_at ''nowhere'' []) (''db'', ''t'') = Some (demo_table ''t'' ''nowhere'')
   \<and> length (calls (demo_world_at ''nowhere'' [])) \<notin> set (faults (demo_world_at ''nowhere'' []))
   \<and> split CHR ''/'' ''nowhere'' = [''nowhere'']
   \<and> calculate_next_location [(''Table'', PDict (demo_table ''t'' ''nowhere''))] = Inl IndexError
   \<and> write_versioned_parquet (demo_sink dir_form) (demo_frame True) ''s3://b/db/t'' [''year''] ''db'' ''t''
        (demo_world_at ''nowhere'' [])
       = (Inl IndexError, (demo_world_at ''nowhere'' [])\<lparr>calls :=
            calls (demo_world_at ''nowhere'' []) @ [GetTable ''db'' ''t'']\<rparr>)
   \<and> tables (demo_world_at ''s3://b/db/t/current/'' []) (''db'', ''t'') = Some (demo_table ''t'' ''s3://b/db/t/current/'')
   \<and> length (calls (demo_world_at ''s3://b/db/t/current/'' [])) \<notin> set (faults (demo_world_at ''s3://b/db/t/current/'' []))
   \<and> split CHR ''/'' ''s3://b/db/t/current/'' = [''s3:'', '''', ''b'', ''db'', ''t'', ''current'', '''']
   \<and> py_int (replace ''version_'' '''' ''current'') = Inl ValueError
   \<and> calculate_next_location [(''Table'', PDict (demo_table ''t'' ''s3://b/db/t/current/''))] = Inl ValueError
   \<and> write_versioned_parquet (demo_sink dir_form) (demo_frame True) ''s3://b/db/t'' [''year''] ''db'' ''t''
        (demo_world_at ''s3://b/db/t/current/'' [])
       = (Inl ValueError, (demo_world_at ''s3://b/db/t/current/'' [])\<lparr>calls :=
            calls (demo_world_at ''s3://b/db/t/current/'' []) @ [GetTable ''db'' ''t'']\<rparr>)"
proof -
  let ?v = "demo_world_at ''nowhere'' []"
  let ?w = "demo_world_at ''s3://b/db/t/current/'' []"
  let ?sdv = "[(''Columns'', PList [PStr ''tile'']), (''Location'', PStr ''nowhere'')]"
  let ?sd = "[(''Columns'', PList [PStr ''tile'']), (''Location'', PStr ''s3://b/db/t/current/'')]"
  have foundv: "tables ?v (''db'', ''t'') = Some (demo_table ''t'' ''nowhere'')"
    by (simp add: demo_world_at_def)
  have servedv: "length (calls ?v) \<notin> set (faults ?v)"
    by (simp add: demo_world_at_def)
  have sdv: "map_of (demo_table ''t'' ''nowhere'') ''StorageDescriptor'' = Some (PDict ?sdv)"
    by (simp add: demo_table_def)
  have locv: "map_of ?sdv ''Location'' = Some (PStr ''nowhere'')"
    by simp
  have splitv: "split CHR ''/'' ''nowhere'' = [''nowhere'']"
    by code_simp
  have shortv: "length (split CHR ''/'' ''nowhere'') < 2"
    by (simp add: splitv)
  have found: "tables ?w (''db'', ''t'') = Some (demo_table ''t'' ''s3://b/db/t/current/'')"
    by (simp add: demo_world_at_def)
  have served: "length (calls ?w) \<notin> set (faults ?w)"
    by (simp add: demo_world_at_def)
  have sd: "map_of (demo_table ''t'' ''s3://b/db/t/current/'') ''StorageDescriptor'' = Some (PDict ?sd)"
    by (simp add: demo_table_def)
  have loc: "map_of ?sd ''Location'' = Some (PStr ''s3://b/db/t/current/'')"
    by simp
  have splitw: "split CHR ''/'' ''s3://b/db/t/current/'' = [''s3:'', '''', ''b'', ''db'', ''t'', ''current'', '''']"
    by code_simp
  have bad: "py_int (replace ''version_'' '''' ''current'') = Inl ValueError"
    by code_simp
  have bad2: "py_int ''current'' = Inl ValueError"
    by code_simp
  have unread: "2 \<le> length (split CHR ''/'' ''s3://b/db/t/current/'')
      \<and> (\<exists>e. py_int (replace ''version_'' '''' (split CHR ''/'' ''s3://b/db/t/current/''
               ! (length (split CHR ''/'' ''s3://b/db/t/current/'') - 2))) = Inl e)"
    by (simp add: splitw bad2)
  note V = malformed_location_aborts_before_write [OF foundv servedv sdv locv, where gc = "demo_sink dir_form"
        and dyf = "demo_frame True" and root = "''s3://b/db/t''" and pk = "[''year'']",
        THEN conjunct1, rule_format, OF shortv]
  note W = malformed_location_aborts_before_write [OF found served sd loc, where gc = "demo_sink dir_form"
        and dyf = "demo_frame True" and root = "''s3://b/db/t''" and pk = "[''year'']",
        THEN conjunct2, THEN conjunct1, rule_format, OF unread]
  show ?thesis
    by (intro conjI foundv servedv splitv found served splitw bad
        conjunct1 [OF V] conjunct2 [OF V] conjunct1 [OF W] conjunct2 [OF W])
qed

text \<open>A second-to-last segment that is a number without the prefix is read as a
  generation: the prefix is removed where it occurs, never required.\<close>

theorem unprefixed_segment_is_accepted:
  "split CHR ''/'' ''s3://b/db/t/7/'' ! (length (split CHR ''/'' ''s3://b/db/t/7/'') - 2) = ''7''
   \<and> calculate_next_location [(''Table'', PDict (demo_table ''t'' ''s3://b/db/t/7/''))]
       = Inr ''s3://b/db/t/version_8/''"
  by (simp add: calculate_next_location_def demo_table_def subscript_def bind_err_def Let_def
      py_int_def strip_def is_space_def parse_unsigned_def is_digit_def digit_val_def
      py_str_def digits.simps digit_char_def)

section \<open>A failed write\<close>

text \<open>
  Claim C4. On the overwrite path, when the sink's write to the staging table raises,
  the invocation ends with that error; the target table's definition (location and
  schema) and its partitions are what they were, and the only requests made are the
  lookup and the write.
\<close>

theorem failed_write_leaves_target:
  assumes found: "tables w (db, t) = Some tdef"
    and served: "length (calls w) \<notin> set (faults w)"
    and nl: "calculate_next_location [(''Table'', PDict tdef)] = Inr next_location"
    and fails: "fst (gc \<lparr>connection_type = ''s3'', path = next_location, enableUpdateCatalog = True,
                        partitionKeys = pk, format = ''glueparquet'', catalogDatabase = db,
                        catalogTableName = t @ ''_version_tmp_'' @ clock w\<rparr> dyf
                  (tables w (db, t @ ''_version_tmp_'' @ clock w),
                   partitions w (db, t @ ''_version_tmp_'' @ clock w))) = Inl e"
  shows "fst (write_versioned_parquet gc dyf root pk db t w) = Inl e
       \<and> tables (snd (write_versioned_parquet gc dyf root pk db t w)) (db, t) = tables w (db, t)
       \<and> partitions (snd (write_versioned_parquet gc dyf root pk db t w)) (db, t) = partitions w (db, t)
       \<and> calls (snd (write_versioned_parquet gc dyf root pk db t w))
           = calls w @ [GetTable db t,
                        WriteFrame \<lparr>connection_type = ''s3'', path = next_location,
                          enableUpdateCatalog = True, partitionKeys = pk, format = ''glueparquet'',
                          catalogDatabase = db, catalogTableName = t @ ''_version_tmp_'' @ clock w\<rparr>]"
proof -
  define tmp where "tmp = t @ ''_version_tmp_'' @ clock w"
  let ?w1 = "w\<lparr>calls := calls w @ [GetTable db t]\<rparr>"
  obtain r w2 where wp: "write_parquet gc dyf next_location pk db tmp ?w1 = (r, w2)"
    by (cases "write_parquet gc dyf next_location pk db tmp ?w1")
  have r: "r = Inl e"
    using wp fails by (auto simp: write_parquet_def Let_def tmp_def split: prod.splits)
  have ne: "(db, t) \<noteq> (db, tmp)"
    by (simp add: tmp_def)
  have "swap_until_flip gc dyf pk db t [(''Table'', PDict tdef)] ?w1 = (Inl e, w2)"
    using swap_write_fail [of "[(''Table'', PDict tdef)]" next_location gc dyf pk db t ?w1 e w2] wp nl
    by (simp add: tmp_def r)
  then have run: "write_versioned_parquet gc dyf root pk db t w = (Inl e, w2)"
    by (simp add: write_versioned_parquet_def get_catalog_table_result found served bind_w_def)
  show ?thesis
    using write_parquet_frame [OF wp] ne by (simp add: run tmp_def)
qed

theorem failed_write_leaves_target_witness:
  "tables (demo_world []) (''db'', ''t'') = Some (demo_table ''t'' ''s3://b/db/t/version_3/'')
   \<and> length (calls (demo_world [])) \<notin> set (faults (demo_world []))
   \<and> calculate_next_location [(''Table'', PDict (demo_table ''t'' ''s3://b/db/t/version_3/''))] = Inr ''s3://b/db/t/version_4/''
   \<and> fst (write_versioned_parquet (demo_sink dir_form) (demo_frame False) ''s3://b/db/t'' [''year''] ''db'' ''t'' (demo_world []))
       = Inl (SinkError ''aborted'')
   \<and> tables (snd (write_versioned_parquet (demo_sink dir_form) (demo_frame False) ''s3://b/db/t'' [''year''] ''db'' ''t'' (demo_world [])))
        (''db'', ''t'') = tables (demo_world []) (''db'', ''t'')
   \<and> partitions (snd (write_versioned_parquet (demo_sink dir_form) (demo_frame False) ''s3://b/db/t'' [''year''] ''db'' ''t'' (demo_world [])))
        (''db'', ''t'') = partitions (demo_world []) (''db'', ''t'')"
proof -
  let ?w = "demo_world []"
  have found: "tables ?w (''db'', ''t'') = Some (demo_table ''t'' ''s3://b/db/t/version_3/'')"
    by (simp add: demo_world_def demo_world_at_def)
  have served: "length (calls ?w) \<notin> set (faults ?w)"
    by (simp add: demo_world_def demo_world_at_def)
  have nl: "calculate_next_location [(''Table'', PDict (demo_table ''t'' ''s3://b/db/t/version_3/''))] = Inr ''s3://b/db/t/version_4/''"
    by (simp add: calculate_next_location_def demo_table_def subscript_def bind_err_def Let_def
      py_int_def strip_def is_space_def parse_unsigned_def is_digit_def digit_val_def
      py_str_def digits.simps digit_char_def)
  have fails: "fst (demo_sink dir_form \<lparr>connection_type = ''s3'', path = ''s3://b/db/t/version_4/'', enableUpdateCatalog = True,
                     partitionKeys = [''year''], format = ''glueparquet'', catalogDatabase = ''db'',
                     catalogTableName = ''t'' @ ''_version_tmp_'' @ clock ?w\<rparr> (demo_frame False)
                  (tables ?w (''db'', ''t'' @ ''_version_tmp_'' @ clock ?w),
                   partitions ?w (''db'', ''t'' @ ''_version_tmp_'' @ clock ?w))) = Inl (SinkError ''aborted'')"
    by (simp add: demo_sink_def demo_frame_def)
  show ?thesis
    using found served nl
      failed_write_leaves_target [where gc = "demo_sink dir_form" and dyf = "demo_frame False"
        and root = "''s3://b/db/t''", OF found served nl fails]
    by blast
qed



lemma for_each_rel_any:
  assumes run: "for_each body xs w = (r, w')"
    and step: "\<And>x v v' r'. x \<in> set xs \<Longrightarrow> body x v = (r', v') \<Longrightarrow> R v v'"
    and refl: "\<And>v. R v v"
    and trans: "\<And>a b c. R a b \<Longrightarrow> R b c \<Longrightarrow> R a c"
  shows "R w w'"
  using run step
proof (induction xs arbitrary: w)
  case Nil
  then show ?case by (simp add: refl)
next
  case (Cons x xs)
  obtain r1 w1 where b: "body x w = (r1, w1)"
    by (cases "body x w")
  have first: "R w w1" using Cons.prems(2) [of x w r1 w1] b by simp
  show ?case
  proof (cases r1)
    case (Inl e)
    with Cons.prems(1) b have "w' = w1" by simp
    with first show ?thesis by simp
  next
    case (Inr u)
    with Cons.prems(1) b have r: "for_each body xs w1 = (r, w')" by simp
    have "R w1 w'"
    proof (rule Cons.IH [OF r])
      fix y v v' r'
      assume "y \<in> set xs" "body y v = (r', v')"
      then show "R v v'" using Cons.prems(2) [of y v r' v'] by simp
    qed
    with first show ?thesis by (rule trans)
  qed
qed

lemma bind_w_rel:
  assumes run: "bind_w m f w = (r, w')"
    and first: "\<And>r1 w1. m w = (r1, w1) \<Longrightarrow> R w w1"
    and second: "\<And>x w1 r2 w2. f x w1 = (r2, w2) \<Longrightarrow> R w1 w2"
    and trans: "\<And>a b c. R a b \<Longrightarrow> R b c \<Longrightarrow> R a c"
  shows "R w w'"
proof -
  obtain r1 w1 where m: "m w = (r1, w1)" by (cases "m w")
  show ?thesis
  proof (cases r1)
    case (Inl e)
    with run m have "w' = w1" by (simp add: bind_w_def)
    with first [OF m] show ?thesis by simp
  next
    case (Inr x)
    with run m have "f x w1 = (r, w')" by (simp add: bind_w_def)
    from first [OF m] second [OF this] show ?thesis by (rule trans)
  qed
qed

lemma no_delete_refl: "no_delete_since v v"
  by (simp add: no_delete_since_def)

lemma no_delete_trans:
  assumes "no_delete_since a b" and "no_delete_since b c"
  shows "no_delete_since a c"
proof -
  from assms obtain cs cs' where
    1: "calls b = calls a @ cs" "\<forall>x \<in> set cs. \<forall>d n. x \<noteq> DeleteTable d n"
    and 2: "calls c = calls b @ cs'" "\<forall>x \<in> set cs'. \<forall>d n. x \<noteq> DeleteTable d n"
    unfolding no_delete_since_def by blast
  have "calls c = calls a @ (cs @ cs')" using 1 2 by simp
  moreover have "\<forall>x \<in> set (cs @ cs'). \<forall>d n. x \<noteq> DeleteTable d n" using 1 2 by auto
  ultimately show ?thesis unfolding no_delete_since_def by blast
qed

lemma bind_w_nd:
  assumes "bind_w m f w = (r, w')"
    and "\<And>r1 w1. m w = (r1, w1) \<Longrightarrow> no_delete_since w w1"
    and "\<And>x w1 r2 w2. f x w1 = (r2, w2) \<Longrightarrow> no_delete_since w1 w2"
  shows "no_delete_since w w'"
  by (rule bind_w_rel [where R = no_delete_since, OF assms(1)])
    (use assms(2,3) no_delete_trans in blast)+

lemma for_each_nd:
  assumes "for_each body xs w = (r, w')"
    and "\<And>x v v' r'. x \<in> set xs \<Longrightarrow> body x v = (r', v') \<Longrightarrow> no_delete_since v v'"
  shows "no_delete_since w w'"
  by (rule for_each_rel_any [where R = no_delete_since, OF assms(1)])
    (use assms(2) no_delete_refl no_delete_trans in blast)+

lemma no_delete_get_partitions:
  "glue_get_partitions db t n w = (r, w') \<Longrightarrow> no_delete_since w w'"
  by (auto simp: glue_get_partitions_def request_def no_delete_since_def split: bool.splits)

lemma no_delete_batch_delete:
  "glue_batch_delete_partition db t td w = (r, w') \<Longrightarrow> no_delete_since w w'"
  by (auto simp: glue_batch_delete_partition_def request_def no_delete_since_def split: bool.splits if_splits)

lemma no_delete_batch_create:
  "glue_batch_create_partition db t ins w = (r, w') \<Longrightarrow> no_delete_since w w'"
  by (auto simp: glue_batch_create_partition_def request_def no_delete_since_def split: bool.splits if_splits)

lemma no_delete_update_table:
  "glue_update_table db ti w = (r, w') \<Longrightarrow> no_delete_since w w'"
  by (auto simp: glue_update_table_def request_def no_delete_since_def
      split: bool.splits if_splits option.splits pyval.splits)

lemma no_delete_write_parquet:
  "write_parquet gc dyf p pk db t w = (r, w') \<Longrightarrow> no_delete_since w w'"
  using write_parquet_frame [of gc dyf p pk db t w r w'] by (simp add: no_delete_since_def)

lemma no_delete_pure: "pure_w x w = (r, w') \<Longrightarrow> no_delete_since w w'"
  by (simp add: pure_w_def no_delete_since_def)

lemma no_delete_delete_partitions:
  assumes "delete_partitions db t batch w = (r, w')"
  shows "no_delete_since w w'"
  using assms unfolding delete_partitions_def
  apply (erule_tac bind_w_nd)
   apply (erule no_delete_get_partitions)
  apply (erule for_each_nd)
  apply (simp split: if_splits)
   apply (erule no_delete_pure)
  apply (erule for_each_nd)
  apply (erule bind_w_nd)
   apply (erule no_delete_pure)
  apply (erule no_delete_batch_delete)
  done

lemma no_delete_copy_partitions:
  assumes "copy_partitions sdb st db t w = (r, w')"
  shows "no_delete_since w w'"
  using assms unfolding copy_partitions_def Let_def
  apply (erule_tac bind_w_nd)
   apply (erule no_delete_get_partitions)
  apply (erule for_each_nd)
  apply (erule no_delete_batch_create)
  done

lemma no_delete_swap:
  assumes "swap_until_flip gc dyf pk db t ett w = (r, w')"
  shows "no_delete_since w w'"
proof -
  have lookup: "no_delete_since a b"
    if "(case get_catalog_table db n a of (None, w1) \<Rightarrow> (Inl TypeError, w1)
          | (Some x, w1) \<Rightarrow> (subscript (PDict x) ''Table'', w1)) = (q, b)" for a b n and q :: "error + pyval"
    using that
    by (auto simp: get_catalog_table_result no_delete_since_def split: if_splits option.splits)
  show ?thesis
    using assms unfolding swap_until_flip_def Let_def
    apply (erule_tac bind_w_nd, erule_tac no_delete_pure)
    apply (erule bind_w_nd, erule no_delete_write_parquet)
    apply (erule bind_w_nd, erule lookup)
    apply (erule bind_w_nd, erule no_delete_pure)
    apply (erule bind_w_nd, erule no_delete_delete_partitions)
    apply (erule bind_w_nd, erule no_delete_copy_partitions)
    apply (erule bind_w_nd, erule no_delete_update_table)
    apply (erule no_delete_pure)
    done
qed

lemma only_partitions_refl: "only_partitions_of k v v"
  by (simp add: only_partitions_of_def)

lemma only_partitions_trans:
  "only_partitions_of k a b \<Longrightarrow> only_partitions_of k b c \<Longrightarrow> only_partitions_of k a c"
  by (simp add: only_partitions_of_def)

lemma bind_w_op:
  assumes "bind_w m f w = (r, w')"
    and "\<And>r1 w1. m w = (r1, w1) \<Longrightarrow> only_partitions_of k w w1"
    and "\<And>x w1 r2 w2. f x w1 = (r2, w2) \<Longrightarrow> only_partitions_of k w1 w2"
  shows "only_partitions_of k w w'"
  by (rule bind_w_rel [where R = "only_partitions_of k", OF assms(1)])
    (use assms(2,3) only_partitions_trans in blast)+

lemma for_each_op:
  assumes "for_each body xs w = (r, w')"
    and "\<And>x v v' r'. x \<in> set xs \<Longrightarrow> body x v = (r', v') \<Longrightarrow> only_partitions_of k v v'"
  shows "only_partitions_of k w w'"
  by (rule for_each_rel_any [where R = "only_partitions_of k", OF assms(1)])
    (use assms(2) only_partitions_refl only_partitions_trans in blast)+

lemma op_get_partitions:
  "glue_get_partitions db t n w = (r, w') \<Longrightarrow> only_partitions_of k w w'"
  by (auto simp: glue_get_partitions_def request_def only_partitions_of_def split: bool.splits)

lemma op_batch_delete:
  "glue_batch_delete_partition db t td w = (r, w') \<Longrightarrow> only_partitions_of (db, t) w w'"
  by (auto simp: glue_batch_delete_partition_def request_def only_partitions_of_def split: bool.splits if_splits)

lemma op_batch_create:
  "glue_batch_create_partition db t ins w = (r, w') \<Longrightarrow> only_partitions_of (db, t) w w'"
  by (auto simp: glue_batch_create_partition_def request_def only_partitions_of_def split: bool.splits if_splits)

lemma op_pure: "pure_w x w = (r, w') \<Longrightarrow> only_partitions_of k w w'"
  by (simp add: pure_w_def only_partitions_of_def)

lemma op_delete_partitions:
  assumes "delete_partitions db t batch w = (r, w')"
  shows "only_partitions_of (db, t) w w'"
  using assms unfolding delete_partitions_def
  apply (erule_tac bind_w_op)
   apply (erule op_get_partitions)
  apply (erule for_each_op)
  apply (simp split: if_splits)
   apply (erule op_pure)
  apply (erule for_each_op)
  apply (erule bind_w_op)
   apply (erule op_pure)
  apply (erule op_batch_delete)
  done

lemma op_copy_partitions:
  assumes "copy_partitions sdb st db t w = (r, w')"
  shows "only_partitions_of (db, t) w w'"
  using assms unfolding copy_partitions_def Let_def
  apply (erule_tac bind_w_op)
   apply (erule op_get_partitions)
  apply (erule for_each_op)
  apply (erule op_batch_create)
  done

lemma map_of_without_keys:
  "map_of (without_keys ks d) k = (if k \<in> set ks then None else map_of d k)"
  by (induction d) (auto simp: without_keys_def)

lemma build_table_input_ok:
  assumes "build_table_input staged t nl = Inr ti"
  shows "\<exists>sd. map_of staged ''StorageDescriptor'' = Some (PDict sd)
       \<and> ti = AList.update ''StorageDescriptor'' (PDict (AList.update ''Location'' (PStr nl) sd))
                (AList.update ''Name'' (PStr t)
                  (without_keys [''CreatedBy'', ''CreateTime'', ''UpdateTime'', ''DatabaseName'',
                                 ''IsRegisteredWithLakeFormation''] staged))"
  using assms
  by (auto simp: build_table_input_def Let_def bind_err_def subscript_def update_conv'
      map_of_without_keys split: option.splits pyval.splits)

lemma build_table_input_fields:
  assumes "build_table_input staged t nl = Inr ti"
  shows "\<exists>sd sd'.
         map_of staged ''StorageDescriptor'' = Some (PDict sd)
       \<and> map_of ti ''StorageDescriptor'' = Some (PDict sd')
       \<and> map_of sd' ''Location'' = Some (PStr nl)
       \<and> (\<forall>k. k \<noteq> ''Location'' \<longrightarrow> map_of sd' k = map_of sd k)
       \<and> map_of ti ''Name'' = Some (PStr t)
       \<and> (\<forall>k \<in> set [''CreatedBy'', ''CreateTime'', ''UpdateTime'', ''DatabaseName'',
                     ''IsRegisteredWithLakeFormation'']. map_of ti k = None)
       \<and> (\<forall>k. k \<notin> set [''CreatedBy'', ''CreateTime'', ''UpdateTime'', ''DatabaseName'',
                       ''IsRegisteredWithLakeFormation'', ''Name'', ''StorageDescriptor'']
              \<longrightarrow> map_of ti k = map_of staged k)"
proof -
  from build_table_input_ok [OF assms] obtain sd where
    sd: "map_of staged ''StorageDescriptor'' = Some (PDict sd)"
    and ti: "ti = AList.update ''StorageDescriptor'' (PDict (AList.update ''Location'' (PStr nl) sd))
                (AList.update ''Name'' (PStr t)
                  (without_keys [''CreatedBy'', ''CreateTime'', ''UpdateTime'', ''DatabaseName'',
                                 ''IsRegisteredWithLakeFormation''] staged))"
    by blast
  show ?thesis
    by (rule exI [of _ sd], rule exI [of _ "AList.update ''Location'' (PStr nl) sd"])
      (simp add: sd ti update_conv' map_of_without_keys)
qed

lemma swap_until_flip_effect:
  assumes "swap_until_flip gc dyf pk db t ett w = (Inr tmp, w')"
  shows "\<exists>nl staged ti.
           tmp = t @ ''_version_tmp_'' @ clock w
         \<and> calculate_next_location ett = Inr nl
         \<and> build_table_input staged t nl = Inr ti
         \<and> tables w' (db, tmp) = Some staged
         \<and> tables w' (db, t) = Some (AList.update ''DatabaseName'' (PStr db) ti)
         \<and> last (calls w') = UpdateTable db ti"
proof -
  from swap_until_flip_ok [OF assms] obtain nl u1 w1 staged w2 ti u3 w3 u4 w4 u5 where
    tmp: "tmp = t @ ''_version_tmp_'' @ clock w"
    and nl: "calculate_next_location ett = Inr nl"
    and wp: "write_parquet gc dyf nl pk db tmp w = (Inr u1, w1)"
    and st: "tables w1 (db, tmp) = Some staged"
    and w2: "w2 = w1\<lparr>calls := calls w1 @ [GetTable db tmp]\<rparr>"
    and ti: "build_table_input staged t nl = Inr ti"
    and dp: "delete_partitions db t 25 w2 = (Inr u3, w3)"
    and cp: "copy_partitions db tmp db t w3 = (Inr u4, w4)"
    and up: "glue_update_table db ti w4 = (Inr u5, w')"
    by blast
  have t4: "tables w4 = tables w1"
    using op_delete_partitions [OF dp] op_copy_partitions [OF cp] w2
    by (simp add: only_partitions_of_def)
  from build_table_input_fields [OF ti] have name: "map_of ti ''Name'' = Some (PStr t)"
    by blast
  from glue_update_table_ok [OF up] name have
    t': "tables w' = (tables w4)((db, t) \<mapsto> AList.update ''DatabaseName'' (PStr db) ti)"
    and c': "calls w' = calls w4 @ [UpdateTable db ti]"
    by auto
  have ne: "tmp \<noteq> t"
    by (simp add: tmp)
  have "tables w' (db, tmp) = Some staged"
    by (simp add: t' t4 st ne)
  moreover have "tables w' (db, t) = Some (AList.update ''DatabaseName'' (PStr db) ti)"
    by (simp add: t')
  moreover have "last (calls w') = UpdateTable db ti"
    by (simp add: c')
  ultimately show ?thesis
    using tmp nl ti by blast
qed

lemma glue_update_table_other:
  "glue_update_table db ti w = (r, w') \<Longrightarrow> map_of ti ''Name'' = Some (PStr t) \<Longrightarrow> k \<noteq> (db, t)
     \<Longrightarrow> tables w' k = tables w k"
  by (auto simp: glue_update_table_def request_def split: if_splits bool.splits)

lemma bind_w_keep:
  assumes "bind_w m f w = (r, w')"
    and "\<And>r1 w1. m w = (r1, w1) \<Longrightarrow> tables w1 k = tables w k"
    and "\<And>x w1 r2 w2. f x w1 = (r2, w2) \<Longrightarrow> tables w2 k = tables w1 k"
  shows "tables w' k = tables w k"
  by (rule bind_w_rel [where R = "\<lambda>v v'. tables v' k = tables v k", OF assms(1)])
    (use assms(2,3) in simp_all)

lemma bind_w_pure: "bind_w (pure_w (Inr x)) f w = f x w"
  by (simp add: bind_w_def pure_w_def)

lemma bind_w_Inr: "m w = (Inr x, w1) \<Longrightarrow> bind_w m f w = f x w1"
  by (simp add: bind_w_def)

lemma swap_staging_entry:
  assumes swap: "swap_until_flip gc dyf pk db t ett w = (s, w')"
    and nl: "calculate_next_location ett = Inr nl"
  shows "tables w' (db, t @ ''_version_tmp_'' @ clock w)
         = fst (snd (gc \<lparr>connection_type = ''s3'', path = nl, enableUpdateCatalog = True,
                          partitionKeys = pk, format = ''glueparquet'', catalogDatabase = db,
                          catalogTableName = t @ ''_version_tmp_'' @ clock w\<rparr> dyf
                       (tables w (db, t @ ''_version_tmp_'' @ clock w),
                        partitions w (db, t @ ''_version_tmp_'' @ clock w))))"
proof -
  define tmp where "tmp = t @ ''_version_tmp_'' @ clock w"
  define k where "k = (db, tmp)"
  have ne: "k \<noteq> (db, t)"
    by (simp add: k_def tmp_def)
  have upd: "tables b k = tables a k"
    if "bind_w (glue_update_table db ti) (\<lambda>u. pure_w (Inr tmp)) a = (q, b)"
      "map_of ti ''Name'' = Some (PStr t)" for a b ti and q :: "error + string"
    using that(1)
    by (rule bind_w_keep) (auto simp: pure_w_def dest: glue_update_table_other [OF _ that(2) ne])
  have cp: "tables b k = tables a k"
    if "bind_w (copy_partitions db tmp db t) (\<lambda>u.
          bind_w (glue_update_table db ti) (\<lambda>u. pure_w (Inr tmp))) a = (q, b)"
      "map_of ti ''Name'' = Some (PStr t)" for a b ti and q :: "error + string"
    using that(1)
    by (rule bind_w_keep) (auto simp: only_partitions_of_def dest: op_copy_partitions upd [OF _ that(2)])
  have dp: "tables b k = tables a k"
    if "bind_w (delete_partitions db t 25) (\<lambda>u.
          bind_w (copy_partitions db tmp db t) (\<lambda>u.
          bind_w (glue_update_table db ti) (\<lambda>u. pure_w (Inr tmp)))) a = (q, b)"
      "map_of ti ''Name'' = Some (PStr t)" for a b ti and q :: "error + string"
    using that(1)
    by (rule bind_w_keep) (auto simp: only_partitions_of_def dest: op_delete_partitions cp [OF _ that(2)])
  have bt: "tables b k = tables a k"
    if "bind_w (pure_w (case x of PDict r \<Rightarrow> build_table_input r t nl | _ \<Rightarrow> Inl TypeError)) (\<lambda>ti.
          bind_w (delete_partitions db t 25) (\<lambda>u.
          bind_w (copy_partitions db tmp db t) (\<lambda>u.
          bind_w (glue_update_table db ti) (\<lambda>u. pure_w (Inr tmp))))) a = (q, b)"
      for a b x and q :: "error + string"
  proof (cases "case x of PDict r \<Rightarrow> build_table_input r t nl | _ \<Rightarrow> Inl TypeError")
    case (Inl e)
    with that show ?thesis by (simp add: bind_w_def pure_w_def)
  next
    case (Inr ti)
    then obtain r where "build_table_input r t nl = Inr ti"
      by (cases x) simp_all
    from build_table_input_fields [OF this] have name: "map_of ti ''Name'' = Some (PStr t)"
      by blast
    from that Inr have "bind_w (delete_partitions db t 25) (\<lambda>u.
          bind_w (copy_partitions db tmp db t) (\<lambda>u.
          bind_w (glue_update_table db ti) (\<lambda>u. pure_w (Inr tmp)))) a = (q, b)"
      by (simp add: bind_w_def pure_w_def)
    from dp [OF this name] show ?thesis .
  qed
  have lk: "tables b k = tables a k"
    if "bind_w (\<lambda>w. case get_catalog_table db tmp w of
                        (None, w1) \<Rightarrow> (Inl TypeError, w1)
                      | (Some r, w1) \<Rightarrow> (subscript (PDict r) ''Table'', w1)) (\<lambda>x.
          bind_w (pure_w (case x of PDict r \<Rightarrow> build_table_input r t nl | _ \<Rightarrow> Inl TypeError)) (\<lambda>ti.
          bind_w (delete_partitions db t 25) (\<lambda>u.
          bind_w (copy_partitions db tmp db t) (\<lambda>u.
          bind_w (glue_update_table db ti) (\<lambda>u. pure_w (Inr tmp)))))) a = (q, b)"
      for a b and q :: "error + string"
    using that
    by (rule bind_w_keep) (auto simp: get_catalog_table_result split: if_splits option.splits dest: bt)
  obtain r1 w1 where wp: "write_parquet gc dyf nl pk db tmp w = (r1, w1)"
    by (cases "write_parquet gc dyf nl pk db tmp w")
  have e1: "tables w1 k = fst (snd (gc \<lparr>connection_type = ''s3'', path = nl, enableUpdateCatalog = True,
                          partitionKeys = pk, format = ''glueparquet'', catalogDatabase = db,
                          catalogTableName = tmp\<rparr> dyf (tables w k, partitions w k)))"
    using wp by (auto simp: write_parquet_def Let_def k_def split: prod.splits)
  have "tables w' k = tables w1 k"
  proof (cases r1)
    case (Inl e)
    with swap_write_fail [OF nl, of gc dyf pk db t w e w1] wp swap show ?thesis
      by (simp add: tmp_def)
  next
    case (Inr u)
    with wp have wp': "write_parquet gc dyf nl pk db tmp w = (Inr u, w1)"
      by simp
    from swap have "bind_w (\<lambda>w. case get_catalog_table db tmp w of
                        (None, w1) \<Rightarrow> (Inl TypeError, w1)
                      | (Some r, w1) \<Rightarrow> (subscript (PDict r) ''Table'', w1)) (\<lambda>x.
          bind_w (pure_w (case x of PDict r \<Rightarrow> build_table_input r t nl | _ \<Rightarrow> Inl TypeError)) (\<lambda>ti.
          bind_w (delete_partitions db t 25) (\<lambda>u.
          bind_w (copy_partitions db tmp db t) (\<lambda>u.
          bind_w (glue_update_table db ti) (\<lambda>u. pure_w (Inr tmp)))))) w1 = (s, w')"
      unfolding swap_until_flip_def Let_def nl tmp_def [symmetric] bind_w_pure bind_w_Inr [where m = "write_parquet gc dyf nl pk db tmp" and w = w, OF wp'] .
    then show ?thesis by (rule lk)
  qed
  with e1 show ?thesis
    by (simp add: k_def tmp_def)
qed

section \<open>Deleting the staging table\<close>

text \<open>
  Claim C9, as the code has it. On the overwrite path no \<^verbatim>\<open>delete_table\<close> request is
  made before \<^verbatim>\<open>update_table\<close> has returned. A run that fails before reports that
  failure and attempts no deletion: the staging entry of the catalog is then whatever the
  sink's write left there, or, when the next location could not be computed, the tables
  are as they were. A run in which every step up to and including \<^verbatim>\<open>update_table\<close>
  has completed makes exactly one \<^verbatim>\<open>delete_table\<close> request, for the staging table, and
  the outcome of the invocation is the outcome of that deletion: when it raises, the
  invocation reports its error and the catalog's tables stay as the flip left them; when
  it succeeds the staging table is gone.
\<close>

theorem staging_deleted_only_after_flip:
  assumes found: "tables w (db, t) = Some tdef"
    and served: "length (calls w) \<notin> set (faults w)"
    and swap: "swap_until_flip gc dyf pk db t [(''Table'', PDict tdef)]
                 (w\<lparr>calls := calls w @ [GetTable db t]\<rparr>) = (s, w2)"
  shows "(\<forall>d n. DeleteTable d n \<notin> set (drop (length (calls w)) (calls w2)))
       \<and> (\<forall>e. s = Inl e \<longrightarrow>
            write_versioned_parquet gc dyf root pk db t w = (Inl e, w2)
          \<and> (\<forall>nl. calculate_next_location [(''Table'', PDict tdef)] = Inr nl \<longrightarrow>
                tables w2 (db, t @ ''_version_tmp_'' @ clock w)
                = fst (snd (gc \<lparr>connection_type = ''s3'', path = nl, enableUpdateCatalog = True,
                                 partitionKeys = pk, format = ''glueparquet'', catalogDatabase = db,
                                 catalogTableName = t @ ''_version_tmp_'' @ clock w\<rparr> dyf
                              (tables w (db, t @ ''_version_tmp_'' @ clock w),
                               partitions w (db, t @ ''_version_tmp_'' @ clock w)))))
          \<and> ((\<exists>e'. calculate_next_location [(''Table'', PDict tdef)] = Inl e') \<longrightarrow>
                tables w2 = tables w))
       \<and> (\<forall>tmp. s = Inr tmp \<longrightarrow>
            write_versioned_parquet gc dyf root pk db t w = glue_delete_table db tmp w2
          \<and> tmp = t @ ''_version_tmp_'' @ clock w
          \<and> calls (snd (glue_delete_table db tmp w2)) = calls w2 @ [DeleteTable db tmp]
          \<and> (fst (glue_delete_table db tmp w2) \<noteq> Inr () \<longrightarrow>
               tables (snd (glue_delete_table db tmp w2)) = tables w2)
          \<and> (fst (glue_delete_table db tmp w2) = Inr () \<longrightarrow>
               tables (snd (glue_delete_table db tmp w2)) (db, tmp) = None))"
proof -
  let ?w1 = "w\<lparr>calls := calls w @ [GetTable db t]\<rparr>"
  have run: "write_versioned_parquet gc dyf root pk db t w
      = (case s of Inl e \<Rightarrow> (Inl e, w2) | Inr tmp \<Rightarrow> glue_delete_table db tmp w2)"
    by (simp add: write_versioned_parquet_def get_catalog_table_result found served bind_w_def swap
        split: sum.splits)
  from no_delete_swap [OF swap] obtain cs where
    cs: "calls w2 = calls ?w1 @ cs" "\<forall>c \<in> set cs. \<forall>d n. c \<noteq> DeleteTable d n"
    unfolding no_delete_since_def by blast
  have "drop (length (calls w)) (calls w2) = GetTable db t # cs"
    using cs(1) by simp
  then have quiet: "\<forall>d n. DeleteTable d n \<notin> set (drop (length (calls w)) (calls w2))"
    using cs(2) by auto
  have del: "calls (snd (glue_delete_table db tmp w2)) = calls w2 @ [DeleteTable db tmp]
       \<and> (fst (glue_delete_table db tmp w2) \<noteq> Inr () \<longrightarrow>
               tables (snd (glue_delete_table db tmp w2)) = tables w2)
       \<and> (fst (glue_delete_table db tmp w2) = Inr () \<longrightarrow>
               tables (snd (glue_delete_table db tmp w2)) (db, tmp) = None)" for tmp
    by (auto simp: glue_delete_table_def request_def split: bool.splits)
  have stg: "tables w2 (db, t @ ''_version_tmp_'' @ clock w)
                = fst (snd (gc \<lparr>connection_type = ''s3'', path = nl, enableUpdateCatalog = True,
                                 partitionKeys = pk, format = ''glueparquet'', catalogDatabase = db,
                                 catalogTableName = t @ ''_version_tmp_'' @ clock w\<rparr> dyf
                              (tables w (db, t @ ''_version_tmp_'' @ clock w),
                               partitions w (db, t @ ''_version_tmp_'' @ clock w))))"
    if "calculate_next_location [(''Table'', PDict tdef)] = Inr nl" for nl
    using swap_staging_entry [OF swap that] by simp
  have early: "tables w2 = tables w"
    if "calculate_next_location [(''Table'', PDict tdef)] = Inl e'" for e'
    using swap_next_fail [OF that, of gc dyf pk db t ?w1] swap by auto
  have name: "tmp = t @ ''_version_tmp_'' @ clock w" if "s = Inr tmp" for tmp
    using swap_until_flip_ok [of gc dyf pk db t "[(''Table'', PDict tdef)]" ?w1 tmp w2] swap that
    by auto
  have fail: "write_versioned_parquet gc dyf root pk db t w = (Inl e, w2)" if "s = Inl e" for e
    using run that by simp
  have ok: "write_versioned_parquet gc dyf root pk db t w = glue_delete_table db tmp w2"
    if "s = Inr tmp" for tmp
    using run that by simp
  show ?thesis
    by (intro conjI allI impI quiet [rule_format] fail ok name stg del [THEN conjunct1]
        del [THEN conjunct2, THEN conjunct1, rule_format] del [THEN conjunct2, THEN conjunct2, rule_format])
      (auto dest: early)
qed

theorem staging_deleted_only_after_flip_witness:
  "tables (demo_world [8]) (''db'', ''t'') = Some (demo_table ''t'' ''s3://b/db/t/version_3/'')
   \<and> length (calls (demo_world [8])) \<notin> set (faults (demo_world [8]))
   \<and> fst (swap_until_flip (demo_sink dir_form) (demo_frame True) [''year''] ''db'' ''t''
            [(''Table'', PDict (demo_table ''t'' ''s3://b/db/t/version_3/''))]
            ((demo_world [8])\<lparr>calls := calls (demo_world [8]) @ [GetTable ''db'' ''t'']\<rparr>))
       = Inr ''t_version_tmp_202401011200''
   \<and> fst (write_versioned_parquet (demo_sink dir_form) (demo_frame True) ''s3://b/db/t'' [''year''] ''db'' ''t'' (demo_world [8]))
       = Inl ServiceError
   \<and> fst (swap_until_flip (demo_sink dir_form) (demo_frame False) [''year''] ''db'' ''t''
            [(''Table'', PDict (demo_table ''t'' ''s3://b/db/t/version_3/''))]
            ((demo_world [])\<lparr>calls := calls (demo_world []) @ [GetTable ''db'' ''t'']\<rparr>))
       = Inl (SinkError ''aborted'')
   \<and> fst (write_versioned_parquet (demo_sink dir_form) (demo_frame False) ''s3://b/db/t'' [''year''] ''db'' ''t'' (demo_world []))
       = Inl (SinkError ''aborted'')
   \<and> (\<forall>d n. DeleteTable d n \<notin> set (calls (snd (write_versioned_parquet (demo_sink dir_form) (demo_frame False)
                ''s3://b/db/t'' [''year''] ''db'' ''t'' (demo_world [])))))
   \<and> map_option (\<lambda>d. map_of d ''Name'')
        (tables (snd (write_versioned_parquet (demo_sink dir_form) (demo_frame False)
                ''s3://b/db/t'' [''year''] ''db'' ''t'' (demo_world []))) (''db'', ''t_version_tmp_202401011200''))
       = Some (Some (PStr ''t_version_tmp_202401011200''))"
proof -
  let ?ett = "[(''Table'', PDict (demo_table ''t'' ''s3://b/db/t/version_3/''))]"
  let ?A = "swap_until_flip (demo_sink dir_form) (demo_frame True) [''year''] ''db'' ''t'' ?ett
              ((demo_world [8])\<lparr>calls := calls (demo_world [8]) @ [GetTable ''db'' ''t'']\<rparr>)"
  let ?B = "swap_until_flip (demo_sink dir_form) (demo_frame False) [''year''] ''db'' ''t'' ?ett
              ((demo_world [])\<lparr>calls := calls (demo_world []) @ [GetTable ''db'' ''t'']\<rparr>)"
  let ?RA = "write_versioned_parquet (demo_sink dir_form) (demo_frame True) ''s3://b/db/t'' [''year''] ''db'' ''t'' (demo_world [8])"
  let ?RB = "write_versioned_parquet (demo_sink dir_form) (demo_frame False) ''s3://b/db/t'' [''year''] ''db'' ''t'' (demo_world [])"
  have found: "tables (demo_world fs) (''db'', ''t'') = Some (demo_table ''t'' ''s3://b/db/t/version_3/'')" for fs
    by (simp add: demo_world_def demo_world_at_def)
  have served8: "length (calls (demo_world [8])) \<notin> set (faults (demo_world [8]))"
    by (simp add: demo_world_def demo_world_at_def)
  have served0: "length (calls (demo_world [])) \<notin> set (faults (demo_world []))"
    by (simp add: demo_world_def demo_world_at_def)
  have c0: "calls (demo_world []) = []" "clock (demo_world []) = ''202401011200''"
    "tables (demo_world []) (''db'', ''t_version_tmp_202401011200'') = None"
    by (simp_all add: demo_world_def demo_world_at_def)
  have a: "fst ?A = Inr ''t_version_tmp_202401011200''"
    by code_simp
  have a': "fst (glue_delete_table ''db'' ''t_version_tmp_202401011200'' (snd ?A)) = Inl ServiceError"
    by code_simp
  have b: "fst ?B = Inl (SinkError ''aborted'')"
    by code_simp
  have nl: "calculate_next_location ?ett = Inr ''s3://b/db/t/version_4/''"
    by code_simp
  have A: "?A = (Inr ''t_version_tmp_202401011200'', snd ?A)"
    by (subst a [symmetric]) (rule prod.collapse [symmetric])
  have B: "?B = (Inl (SinkError ''aborted''), snd ?B)"
    by (subst b [symmetric]) (rule prod.collapse [symmetric])
  note TA = staging_deleted_only_after_flip [OF found served8 A, where root = "''s3://b/db/t''",
      THEN conjunct2, THEN conjunct2, rule_format, OF refl]
  note TB1 = staging_deleted_only_after_flip [OF found served0 B, where root = "''s3://b/db/t''",
      THEN conjunct1]
  note TB2 = staging_deleted_only_after_flip [OF found served0 B, where root = "''s3://b/db/t''",
      THEN conjunct2, THEN conjunct1, rule_format, OF refl]
  have ra: "?RA = glue_delete_table ''db'' ''t_version_tmp_202401011200'' (snd ?A)"
    by (rule TA [THEN conjunct1])
  have 1: "fst ?RA = Inl ServiceError"
    by (subst ra) (rule a')
  have rb: "?RB = (Inl (SinkError ''aborted''), snd ?B)"
    by (rule TB2 [THEN conjunct1])
  have 2: "fst ?RB = Inl (SinkError ''aborted'')"
    by (subst rb) simp
  have 3: "\<forall>d n. DeleteTable d n \<notin> set (calls (snd ?RB))"
    using TB1 by (subst rb) (simp add: c0)
  have "tables (snd ?B) (''db'', ''t'' @ ''_version_tmp_'' @ clock (demo_world []))
      = fst (snd (demo_sink dir_form \<lparr>connection_type = ''s3'', path = ''s3://b/db/t/version_4/'', enableUpdateCatalog = True,
                                 partitionKeys = [''year''], format = ''glueparquet'', catalogDatabase = ''db'',
                                 catalogTableName = ''t'' @ ''_version_tmp_'' @ clock (demo_world [])\<rparr> (demo_frame False)
                              (tables (demo_world []) (''db'', ''t'' @ ''_version_tmp_'' @ clock (demo_world [])),
                               partitions (demo_world []) (''db'', ''t'' @ ''_version_tmp_'' @ clock (demo_world [])))))"
    by (rule TB2 [THEN conjunct2, THEN conjunct1, rule_format, OF nl])
  then have 4: "map_option (\<lambda>d. map_of d ''Name'') (tables (snd ?RB) (''db'', ''t_version_tmp_202401011200''))
       = Some (Some (PStr ''t_version_tmp_202401011200''))"
    by (subst rb) (simp add: c0 demo_sink_def update_conv')
  show ?thesis
    by (intro conjI found served8 a 1 b 2 3 4)
qed

text \<open>A deletion that fails after the flip fails the invocation, and a write that
  fails leaves the staging table registered, with no deletion attempted.\<close>

theorem cleanup_failure_is_fatal_and_skipped_after_failure:
  "fst (write_versioned_parquet (demo_sink dir_form) (demo_frame True) ''s3://b/db/t'' [''year''] ''db'' ''t'' (demo_world [8]))
     = Inl ServiceError
   \<and> map_option (\<lambda>d. map_of d ''StorageDescriptor'')
       (tables (snd (write_versioned_parquet (demo_sink dir_form) (demo_frame True) ''s3://b/db/t'' [''year''] ''db'' ''t''
                  (demo_world [8]))) (''db'', ''t''))
     = Some (Some (PDict [(''Columns'', PList [PStr ''tile'', PStr ''tests'']),
                          (''Location'', PStr ''s3://b/db/t/version_4/'')]))
   \<and> fst (write_versioned_parquet (demo_sink dir_form) (demo_frame False) ''s3://b/db/t'' [''year''] ''db'' ''t'' (demo_world []))
     = Inl (SinkError ''aborted'')
   \<and> calls (snd (write_versioned_parquet (demo_sink dir_form) (demo_frame False) ''s3://b/db/t'' [''year''] ''db'' ''t''
               (demo_world [])))
     = [GetTable ''db'' ''t'',
        WriteFrame \<lparr>connection_type = ''s3'', path = ''s3://b/db/t/version_4/'',
          enableUpdateCatalog = True, partitionKeys = [''year''], format = ''glueparquet'',
          catalogDatabase = ''db'', catalogTableName = ''t_version_tmp_202401011200''\<rparr>]
   \<and> tables (snd (write_versioned_parquet (demo_sink dir_form) (demo_frame False) ''s3://b/db/t'' [''year''] ''db'' ''t''
                (demo_world []))) (''db'', ''t_version_tmp_202401011200'') \<noteq> None"
  by code_simp
section \<open>The flip\<close>

text \<open>
  Claim C2. When the steps of an overwrite up to and including \<^verbatim>\<open>update_table\<close> have
  completed, the target table's storage location is the computed next-generation
  location, and its schema is the staging table's: the partition keys and every field
  of the storage descriptor other than the location, the columns among them, are those
  of the staging table, which is still registered. The definition submitted, the last
  request made, is the staging table's without the fields \<open>CreatedBy\<close>, \<open>CreateTime\<close>,
  \<open>UpdateTime\<close>, \<open>DatabaseName\<close> and \<open>IsRegisteredWithLakeFormation\<close>, with the target's
  name as \<open>Name\<close> and the next-generation location in its storage descriptor, and with
  every other field as the staging table has it; the target's definition in the catalog
  is the submitted one with the database recorded.
\<close>

theorem flip_installs_next_generation:
  assumes "swap_until_flip gc dyf pk db t ett w = (Inr tmp, w')"
  shows "\<exists>nl staged target sd sd' ti.
           calculate_next_location ett = Inr nl
         \<and> tables w' (db, tmp) = Some staged
         \<and> tables w' (db, t) = Some target
         \<and> map_of target ''StorageDescriptor'' = Some (PDict sd')
         \<and> map_of sd' ''Location'' = Some (PStr nl)
         \<and> map_of staged ''StorageDescriptor'' = Some (PDict sd)
         \<and> map_of sd' ''Columns'' = map_of sd ''Columns''
         \<and> (\<forall>k. k \<noteq> ''Location'' \<longrightarrow> map_of sd' k = map_of sd k)
         \<and> map_of target ''PartitionKeys'' = map_of staged ''PartitionKeys''
         \<and> last (calls w') = UpdateTable db ti
         \<and> (\<forall>k \<in> set [''CreatedBy'', ''CreateTime'', ''UpdateTime'', ''DatabaseName'',
                       ''IsRegisteredWithLakeFormation'']. map_of ti k = None)
         \<and> map_of ti ''Name'' = Some (PStr t)
         \<and> map_of ti ''StorageDescriptor'' = Some (PDict sd')
         \<and> (\<forall>k. k \<notin> set [''CreatedBy'', ''CreateTime'', ''UpdateTime'', ''DatabaseName'',
                         ''IsRegisteredWithLakeFormation'', ''Name'', ''StorageDescriptor'']
                \<longrightarrow> map_of ti k = map_of staged k)
         \<and> map_of target ''Name'' = Some (PStr t)
         \<and> (\<forall>k. k \<noteq> ''DatabaseName'' \<longrightarrow> map_of target k = map_of ti k)"
proof -
  from swap_until_flip_effect [OF assms] obtain nl staged ti where
    nl: "calculate_next_location ett = Inr nl"
    and ti: "build_table_input staged t nl = Inr ti"
    and st: "tables w' (db, tmp) = Some staged"
    and tg: "tables w' (db, t) = Some (AList.update ''DatabaseName'' (PStr db) ti)"
    and lc: "last (calls w') = UpdateTable db ti"
    by blast
  from build_table_input_fields [OF ti] obtain sd sd' where
    sd: "map_of staged ''StorageDescriptor'' = Some (PDict sd)"
    and sd': "map_of ti ''StorageDescriptor'' = Some (PDict sd')"
    and loc: "map_of sd' ''Location'' = Some (PStr nl)"
    and rest: "\<forall>k. k \<noteq> ''Location'' \<longrightarrow> map_of sd' k = map_of sd k"
    and name: "map_of ti ''Name'' = Some (PStr t)"
    and gone: "\<forall>k \<in> set [''CreatedBy'', ''CreateTime'', ''UpdateTime'', ''DatabaseName'',
                     ''IsRegisteredWithLakeFormation'']. map_of ti k = None"
    and keep: "\<forall>k. k \<notin> set [''CreatedBy'', ''CreateTime'', ''UpdateTime'', ''DatabaseName'',
                       ''IsRegisteredWithLakeFormation'', ''Name'', ''StorageDescriptor'']
              \<longrightarrow> map_of ti k = map_of staged k"
    by blast
  let ?target = "AList.update ''DatabaseName'' (PStr db) ti"
  have 1: "map_of ?target ''StorageDescriptor'' = Some (PDict sd')"
    by (simp add: update_conv' sd')
  have 2: "map_of sd' ''Columns'' = map_of sd ''Columns''"
    using rest by simp
  have 3: "map_of ?target ''PartitionKeys'' = map_of staged ''PartitionKeys''"
    using keep by (simp add: update_conv')
  have 4: "map_of ?target ''Name'' = Some (PStr t)"
    by (simp add: update_conv' name)
  have 5: "\<forall>k. k \<noteq> ''DatabaseName'' \<longrightarrow> map_of ?target k = map_of ti k"
    by (simp add: update_conv')
  show ?thesis
    apply (rule exI [of _ nl], rule exI [of _ staged], rule exI [of _ ?target])
    apply (rule exI [of _ sd], rule exI [of _ sd'], rule exI [of _ ti])
    apply (intro conjI)
    apply (fact nl st tg 1 loc sd 2 rest 3 lc gone name sd' keep 4 5)+
    done
qed

theorem flip_installs_next_generation_witness:
  "fst (swap_until_flip (demo_sink dir_form) (demo_frame True) [''year''] ''db'' ''t''
          [(''Table'', PDict (demo_table ''t'' ''s3://b/db/t/version_3/''))] (demo_world []))
     = Inr ''t_version_tmp_202401011200''
   \<and> (\<exists>nl staged target sd sd' ti.
           calculate_next_location [(''Table'', PDict (demo_table ''t'' ''s3://b/db/t/version_3/''))] = Inr nl
         \<and> tables (snd (swap_until_flip (demo_sink dir_form) (demo_frame True) [''year''] ''db'' ''t''
              [(''Table'', PDict (demo_table ''t'' ''s3://b/db/t/version_3/''))] (demo_world [])))
              (''db'', ''t_version_tmp_202401011200'') = Some staged
         \<and> tables (snd (swap_until_flip (demo_sink dir_form) (demo_frame True) [''year''] ''db'' ''t''
              [(''Table'', PDict (demo_table ''t'' ''s3://b/db/t/version_3/''))] (demo_world [])))
              (''db'', ''t'') = Some target
         \<and> map_of target ''StorageDescriptor'' = Some (PDict sd')
         \<and> map_of sd' ''Location'' = Some (PStr nl)
         \<and> map_of staged ''StorageDescriptor'' = Some (PDict sd)
         \<and> map_of sd' ''Columns'' = map_of sd ''Columns''
         \<and> (\<forall>k. k \<noteq> ''Location'' \<longrightarrow> map_of sd' k = map_of sd k)
         \<and> map_of target ''PartitionKeys'' = map_of staged ''PartitionKeys''
         \<and> last (calls (snd (swap_until_flip (demo_sink dir_form) (demo_frame True) [''year''] ''db'' ''t''
              [(''Table'', PDict (demo_table ''t'' ''s3://b/db/t/version_3/''))] (demo_world []))))
             = UpdateTable ''db'' ti
         \<and> (\<forall>k \<in> set [''CreatedBy'', ''CreateTime'', ''UpdateTime'', ''DatabaseName'',
                       ''IsRegisteredWithLakeFormation'']. map_of ti k = None)
         \<and> map_of ti ''Name'' = Some (PStr ''t'')
         \<and> map_of ti ''StorageDescriptor'' = Some (PDict sd')
         \<and> (\<forall>k. k \<notin> set [''CreatedBy'', ''CreateTime'', ''UpdateTime'', ''DatabaseName'',
                         ''IsRegisteredWithLakeFormation'', ''Name'', ''StorageDescriptor'']
                \<longrightarrow> map_of ti k = map_of staged k)
         \<and> map_of target ''Name'' = Some (PStr ''t'')
         \<and> (\<forall>k. k \<noteq> ''DatabaseName'' \<longrightarrow> map_of target k = map_of ti k))
   \<and> tables (snd (swap_until_flip (demo_sink dir_form) (demo_frame True) [''year''] ''db'' ''t''
              [(''Table'', PDict (demo_table ''t'' ''s3://b/db/t/version_3/''))] (demo_world [])))
              (''db'', ''t_version_tmp_202401011200'')
      = Some [(''CreateTime'', PInt 7),
              (''UpdateTime'', PInt 7),
              (''CreatedBy'', PStr ''sink''),
              (''IsRegisteredWithLakeFormation'', PBool False),
              (''TableType'', PStr ''EXTERNAL_TABLE''),
              (''PartitionKeys'', PList [PStr ''year'']),
              (''StorageDescriptor'', PDict [(''Columns'', PList [PStr ''tile'', PStr ''tests'']),
                                             (''Location'', PStr ''s3://b/db/t/version_4/'')]),
              (''DatabaseName'', PStr ''db''),
              (''Name'', PStr ''t_version_tmp_202401011200'')]
   \<and> last (calls (snd (swap_until_flip (demo_sink dir_form) (demo_frame True) [''year''] ''db'' ''t''
              [(''Table'', PDict (demo_table ''t'' ''s3://b/db/t/version_3/''))] (demo_world []))))
      = UpdateTable ''db''
          [(''TableType'', PStr ''EXTERNAL_TABLE''),
           (''PartitionKeys'', PList [PStr ''year'']),
           (''StorageDescriptor'', PDict [(''Columns'', PList [PStr ''tile'', PStr ''tests'']),
                                          (''Location'', PStr ''s3://b/db/t/version_4/'')]),
           (''Name'', PStr ''t'')]
   \<and> map_option (\<lambda>d. map_of d ''StorageDescriptor'')
        (tables (snd (swap_until_flip (demo_sink dir_form) (demo_frame True) [''year''] ''db'' ''t''
              [(''Table'', PDict (demo_table ''t'' ''s3://b/db/t/version_3/''))] (demo_world [])))
              (''db'', ''t''))
      = Some (Some (PDict [(''Columns'', PList [PStr ''tile'', PStr ''tests'']),
                           (''Location'', PStr ''s3://b/db/t/version_4/'')]))"
proof -
  let ?ett = "[(''Table'', PDict (demo_table ''t'' ''s3://b/db/t/version_3/''))]"
  let ?A = "swap_until_flip (demo_sink dir_form) (demo_frame True) [''year''] ''db'' ''t'' ?ett (demo_world [])"
  have a: "fst ?A = Inr ''t_version_tmp_202401011200''"
    by code_simp
  have A: "?A = (Inr ''t_version_tmp_202401011200'', snd ?A)"
    by (subst a [symmetric]) (rule prod.collapse [symmetric])
  have s: "tables (snd ?A) (''db'', ''t_version_tmp_202401011200'')
      = Some [(''CreateTime'', PInt 7),
              (''UpdateTime'', PInt 7),
              (''CreatedBy'', PStr ''sink''),
              (''IsRegisteredWithLakeFormation'', PBool False),
              (''TableType'', PStr ''EXTERNAL_TABLE''),
              (''PartitionKeys'', PList [PStr ''year'']),
              (''StorageDescriptor'', PDict [(''Columns'', PList [PStr ''tile'', PStr ''tests'']),
                                             (''Location'', PStr ''s3://b/db/t/version_4/'')]),
              (''DatabaseName'', PStr ''db''),
              (''Name'', PStr ''t_version_tmp_202401011200'')]"
    by code_simp
  have u: "last (calls (snd ?A))
      = UpdateTable ''db''
          [(''TableType'', PStr ''EXTERNAL_TABLE''),
           (''PartitionKeys'', PList [PStr ''year'']),
           (''StorageDescriptor'', PDict [(''Columns'', PList [PStr ''tile'', PStr ''tests'']),
                                          (''Location'', PStr ''s3://b/db/t/version_4/'')]),
           (''Name'', PStr ''t'')]"
    by code_simp
  have c: "map_option (\<lambda>d. map_of d ''StorageDescriptor'') (tables (snd ?A) (''db'', ''t''))
      = Some (Some (PDict [(''Columns'', PList [PStr ''tile'', PStr ''tests'']),
                           (''Location'', PStr ''s3://b/db/t/version_4/'')]))"
    by code_simp
  show ?thesis
    by (intro conjI a s u c flip_installs_next_generation [OF A])
qed

text \<open>
  Claim C10. In the last request of the completed flip, the definition submitted for
  the target is the staging table's definition, as registered in the catalog, without
  the five fields \<open>CreatedBy\<close>, \<open>CreateTime\<close>, \<open>UpdateTime\<close>, \<open>DatabaseName\<close> and
  \<open>IsRegisteredWithLakeFormation\<close>, with \<open>Name\<close> the target's name and with the
  storage descriptor's \<open>Location\<close> the next-generation location; every other field of
  the definition and of its storage descriptor is the staging table's.
\<close>

theorem flip_submits_rehomed_staging_definition:
  assumes "swap_until_flip gc dyf pk db t ett w = (Inr tmp, w')"
  shows "\<exists>nl staged sd sd' ti.
           calculate_next_location ett = Inr nl
         \<and> tmp = t @ ''_version_tmp_'' @ clock w
         \<and> tables w' (db, tmp) = Some staged
         \<and> last (calls w') = UpdateTable db ti
         \<and> (\<forall>k \<in> set [''CreatedBy'', ''CreateTime'', ''UpdateTime'', ''DatabaseName'',
                       ''IsRegisteredWithLakeFormation'']. map_of ti k = None)
         \<and> map_of ti ''Name'' = Some (PStr t)
         \<and> map_of staged ''StorageDescriptor'' = Some (PDict sd)
         \<and> map_of ti ''StorageDescriptor'' = Some (PDict sd')
         \<and> map_of sd' ''Location'' = Some (PStr nl)
         \<and> (\<forall>k. k \<noteq> ''Location'' \<longrightarrow> map_of sd' k = map_of sd k)
         \<and> (\<forall>k. k \<notin> set [''CreatedBy'', ''CreateTime'', ''UpdateTime'', ''DatabaseName'',
                         ''IsRegisteredWithLakeFormation'', ''Name'', ''StorageDescriptor'']
                \<longrightarrow> map_of ti k = map_of staged k)"
proof -
  from swap_until_flip_effect [OF assms] obtain nl staged ti where
    tmp: "tmp = t @ ''_version_tmp_'' @ clock w"
    and nl: "calculate_next_location ett = Inr nl"
    and ti: "build_table_input staged t nl = Inr ti"
    and st: "tables w' (db, tmp) = Some staged"
    and lc: "last (calls w') = UpdateTable db ti"
    by blast
  from build_table_input_fields [OF ti] obtain sd sd' where
    f: "map_of staged ''StorageDescriptor'' = Some (PDict sd)"
      "map_of ti ''StorageDescriptor'' = Some (PDict sd')"
      "map_of sd' ''Location'' = Some (PStr nl)"
      "\<forall>k. k \<noteq> ''Location'' \<longrightarrow> map_of sd' k = map_of sd k"
      "map_of ti ''Name'' = Some (PStr t)"
      "\<forall>k \<in> set [''CreatedBy'', ''CreateTime'', ''UpdateTime'', ''DatabaseName'',
                     ''IsRegisteredWithLakeFormation'']. map_of ti k = None"
      "\<forall>k. k \<notin> set [''CreatedBy'', ''CreateTime'', ''UpdateTime'', ''DatabaseName'',
                       ''IsRegisteredWithLakeFormation'', ''Name'', ''StorageDescriptor'']
              \<longrightarrow> map_of ti k = map_of staged k"
    by blast
  show ?thesis
    apply (rule exI [of _ nl], rule exI [of _ staged])
    apply (rule exI [of _ sd], rule exI [of _ sd'], rule exI [of _ ti])
    apply (intro conjI)
    apply (fact nl tmp st lc f)+
    done
qed

theorem flip_submits_rehomed_staging_definition_witness:
  "fst (swap_until_flip (demo_sink dir_form) (demo_frame True) [''year''] ''db'' ''t''
          [(''Table'', PDict (demo_table ''t'' ''s3://b/db/t/version_3/''))] (demo_world []))
     = Inr ''t_version_tmp_202401011200''
   \<and> (\<exists>nl staged sd sd' ti.
           calculate_next_location [(''Table'', PDict (demo_table ''t'' ''s3://b/db/t/version_3/''))] = Inr nl
         \<and> ''t_version_tmp_202401011200'' = ''t'' @ ''_version_tmp_'' @ clock (demo_world [])
         \<and> tables (snd (swap_until_flip (demo_sink dir_form) (demo_frame True) [''year''] ''db'' ''t''
              [(''Table'', PDict (demo_table ''t'' ''s3://b/db/t/version_3/''))] (demo_world [])))
              (''db'', ''t_version_tmp_202401011200'') = Some staged
         \<and> last (calls (snd (swap_until_flip (demo_sink dir_form) (demo_frame True) [''year''] ''db'' ''t''
              [(''Table'', PDict (demo_table ''t'' ''s3://b/db/t/version_3/''))] (demo_world []))))
             = UpdateTable ''db'' ti
         \<and> (\<forall>k \<in> set [''CreatedBy'', ''CreateTime'', ''UpdateTime'', ''DatabaseName'',
                       ''IsRegisteredWithLakeFormation'']. map_of ti k = None)
         \<and> map_of ti ''Name'' = Some (PStr ''t'')
         \<and> map_of staged ''StorageDescriptor'' = Some (PDict sd)
         \<and> map_of ti ''StorageDescriptor'' = Some (PDict sd')
         \<and> map_of sd' ''Location'' = Some (PStr nl)
         \<and> (\<forall>k. k \<noteq> ''Location'' \<longrightarrow> map_of sd' k = map_of sd k)
         \<and> (\<forall>k. k \<notin> set [''CreatedBy'', ''CreateTime'', ''UpdateTime'', ''DatabaseName'',
                         ''IsRegisteredWithLakeFormation'', ''Name'', ''StorageDescriptor'']
                \<longrightarrow> map_of ti k = map_of staged k))
   \<and> last (calls (snd (swap_until_flip (demo_sink dir_form) (demo_frame True) [''year''] ''db'' ''t''
          [(''Table'', PDict (demo_table ''t'' ''s3://b/db/t/version_3/''))] (demo_world []))))
     = UpdateTable ''db''
         [(''TableType'', PStr ''EXTERNAL_TABLE''),
          (''PartitionKeys'', PList [PStr ''year'']),
          (''StorageDescriptor'',
           PDict [(''Columns'', PList [PStr ''tile'', PStr ''tests'']),
                  (''Location'', PStr ''s3://b/db/t/version_4/'')]),
          (''Name'', PStr ''t'')]"
proof -
  let ?ett = "[(''Table'', PDict (demo_table ''t'' ''s3://b/db/t/version_3/''))]"
  let ?A = "swap_until_flip (demo_sink dir_form) (demo_frame True) [''year''] ''db'' ''t'' ?ett (demo_world [])"
  have a: "fst ?A = Inr ''t_version_tmp_202401011200''"
    by code_simp
  have A: "?A = (Inr ''t_version_tmp_202401011200'', snd ?A)"
    by (subst a [symmetric]) (rule prod.collapse [symmetric])
  have l: "last (calls (snd ?A)) = UpdateTable ''db''
         [(''TableType'', PStr ''EXTERNAL_TABLE''),
          (''PartitionKeys'', PList [PStr ''year'']),
          (''StorageDescriptor'',
           PDict [(''Columns'', PList [PStr ''tile'', PStr ''tests'']),
                  (''Location'', PStr ''s3://b/db/t/version_4/'')]),
          (''Name'', PStr ''t'')]"
    by code_simp
  show ?thesis
    by (intro conjI a l flip_submits_rehomed_staging_definition [OF A])
qed

section \<open>Properties of the partition reconciler\<close>

lemma range_step_cover:
  assumes n: "0 < n" and j: "j < len"
  shows "(j div n) * n \<in> set (range_step len n)"
proof -
  have "j div n \<le> (len - 1) div n"
    using j by (intro div_le_mono) simp
  also have "(len - 1) div n < (len + n - 1) div n"
  proof -
    have e: "len + n - 1 = (len - 1) + n" using j by arith
    have "((len - 1) + n) div n = (len - 1) div n + 1"
      using n by (subst div_add_self2) simp_all
    then have "(len + n - 1) div n = (len - 1) div n + 1"
      by (simp only: e)
    then show ?thesis by arith
  qed
  finally have "j div n < (len + n - 1) div n" .
  then show ?thesis
    by (auto simp: range_step_def)
qed

lemma in_chunk:
  assumes n: "0 < n" and x: "x \<in> set xs"
  shows "\<exists>i \<in> set (range_step (length xs) n). x \<in> set (take n (drop i xs))"
proof -
  from x obtain j where j: "j < length xs" "xs ! j = x"
    by (auto simp: in_set_conv_nth)
  let ?i = "(j div n) * n"
  have i: "?i \<in> set (range_step (length xs) n)"
    using range_step_cover [OF n j(1)] .
  have d: "?i + j mod n = j" by simp
  have m: "j mod n < n" using n by simp
  have "j mod n < length xs - ?i"
    using j(1) d by arith
  then have l: "j mod n < length (take n (drop ?i xs))"
    using m by simp
  have le: "?i \<le> length xs"
    using j(1) d by arith
  have "drop ?i xs ! (j mod n) = xs ! (?i + j mod n)"
    using le by (rule nth_drop)
  then have "take n (drop ?i xs) ! (j mod n) = xs ! j"
    using m by (simp only: nth_take d)
  then have "x \<in> set (take n (drop ?i xs))"
    using l j(2) by (metis nth_mem)
  with i show ?thesis by blast
qed

lemma in_pages: "x \<in> set xs \<Longrightarrow> \<exists>pg \<in> set (pages n xs). x \<in> set pg"
  using in_chunk [of n x xs] by (auto simp: pages_def)

lemma pages_subset: "pg \<in> set (pages n xs) \<Longrightarrow> x \<in> set pg \<Longrightarrow> x \<in> set xs"
  by (auto simp: pages_def split: if_splits dest: in_set_takeD in_set_dropD)

lemma pages_length: "0 < n \<Longrightarrow> pg \<in> set (pages n xs) \<Longrightarrow> length pg \<le> n"
  by (auto simp: pages_def split: if_splits)

lemma Union_pages: "(\<Union>pg \<in> set (pages n xs). set pg) = set xs"
  using in_pages [of _ xs n] pages_subset [of _ n xs] by blast

lemma key_projections_map:
  "key_projections (map (Pair k) vs) = Inr td \<Longrightarrow>
     td = map (\<lambda>v. [(k, the (map_of v k))]) vs \<and> (\<forall>v \<in> set vs. map_of v k \<noteq> None)"
  by (induction vs arbitrary: td)
    (auto simp: bind_err_def subscript_def split: option.splits sum.splits)

lemma delete_step:
  assumes run: "bind_w (pure_w (key_projections
                       (zip (replicate batch ''Values'') (take batch (drop i pg)))))
               (\<lambda>to_delete. glue_batch_delete_partition db t to_delete) v = (Inr u, v')"
  shows "set (partitions v' (db, t)) \<subseteq> set (partitions v (db, t))
       \<and> (\<forall>p \<in> set (take batch (drop i pg)). p \<notin> set (partitions v' (db, t)))"
proof -
  let ?chunk = "take batch (drop i pg)"
  from run obtain td where
    kp: "key_projections (map (Pair ''Values'') ?chunk) = Inr td"
    and bd: "glue_batch_delete_partition db t td v = (Inr u, v')"
    by (auto simp: bind_w_def pure_w_def zip_replicate1 split: sum.splits)
  from key_projections_map [OF kp] have
    td: "td = map (\<lambda>v. [(''Values'', the (map_of v ''Values''))]) ?chunk"
    and some: "\<forall>v \<in> set ?chunk. map_of v ''Values'' \<noteq> None"
    by blast+
  from glue_batch_delete_ok [OF bd] have
    ps: "partitions v' (db, t) =
          filter (\<lambda>p. map_of p ''Values'' \<notin> set (map (\<lambda>d. map_of d ''Values'') td)) (partitions v (db, t))"
    by simp
  have "map_of p ''Values'' \<in> set (map (\<lambda>d. map_of d ''Values'') td)" if "p \<in> set ?chunk" for p
  proof -
    from some that obtain x where x: "map_of p ''Values'' = Some x" by auto
    have "[(''Values'', x)] \<in> set td"
      using that x by (force simp: td)
    then have "map_of [(''Values'', x)] ''Values'' \<in> set (map (\<lambda>d. map_of d ''Values'') td)"
      by (metis (no_types, lifting) image_eqI list.set_map)
    then show ?thesis by (simp add: x)
  qed
  then show ?thesis
    by (auto simp: ps)
qed

lemma delete_page:
  assumes b: "0 < batch"
    and run: "for_each (\<lambda>i. bind_w (pure_w (key_projections
                       (zip (replicate batch ''Values'') (take batch (drop i pg)))))
               (\<lambda>to_delete. glue_batch_delete_partition db t to_delete))
             (range_step (length pg) batch) v = (Inr u, v')"
  shows "set (partitions v' (db, t)) \<subseteq> set (partitions v (db, t))
       \<and> (\<forall>p \<in> set pg. p \<notin> set (partitions v' (db, t)))"
proof -
  have sub: "set (partitions v' (db, t)) \<subseteq> set (partitions v (db, t))"
  proof (rule for_each_rel [OF run, where R = "\<lambda>a b. set (partitions b (db, t)) \<subseteq> set (partitions a (db, t))"])
    fix i a a' u'
    assume "bind_w (pure_w (key_projections
                       (zip (replicate batch ''Values'') (take batch (drop i pg)))))
               (\<lambda>to_delete. glue_batch_delete_partition db t to_delete) a = (Inr u', a')"
    from delete_step [OF this] show "set (partitions a' (db, t)) \<subseteq> set (partitions a (db, t))"
      by (rule conjunct1)
  qed auto
  have "\<forall>i \<in> set (range_step (length pg) batch).
          \<forall>p \<in> set (take batch (drop i pg)). p \<notin> set (partitions v' (db, t))"
  proof (rule for_each_post [OF run, where Q = "\<lambda>i a. \<forall>p \<in> set (take batch (drop i pg)). p \<notin> set (partitions a (db, t))"])
    fix i a a' u'
    assume "bind_w (pure_w (key_projections
                       (zip (replicate batch ''Values'') (take batch (drop i pg)))))
               (\<lambda>to_delete. glue_batch_delete_partition db t to_delete) a = (Inr u', a')"
    from delete_step [OF this] show "\<forall>p \<in> set (take batch (drop i pg)). p \<notin> set (partitions a' (db, t))"
      by (rule conjunct2)
  next
    fix i y a a' u'
    assume "bind_w (pure_w (key_projections
                       (zip (replicate batch ''Values'') (take batch (drop y pg)))))
               (\<lambda>to_delete. glue_batch_delete_partition db t to_delete) a = (Inr u', a')"
      and q: "\<forall>p \<in> set (take batch (drop i pg)). p \<notin> set (partitions a (db, t))"
    from delete_step [OF this(1)] have "set (partitions a' (db, t)) \<subseteq> set (partitions a (db, t))"
      by (rule conjunct1)
    with q show "\<forall>p \<in> set (take batch (drop i pg)). p \<notin> set (partitions a' (db, t))"
      by (meson subsetD)
  qed
  with in_chunk [OF b] sub show ?thesis by (meson)
qed

lemma delete_partitions_empties:
  assumes b: "0 < batch"
    and run: "delete_partitions db t batch w = (Inr u, w')"
  shows "partitions w' (db, t) = []"
proof -
  let ?body = "\<lambda>pg. for_each (\<lambda>i. bind_w (pure_w (key_projections
                       (zip (replicate batch ''Values'') (take batch (drop i pg)))))
               (\<lambda>to_delete. glue_batch_delete_partition db t to_delete))
             (range_step (length pg) batch)"
  let ?w1 = "w\<lparr>calls := calls w @ [GetPartitions db t]\<rparr>"
  let ?pgs = "pages (page_size w) (partitions w (db, t))"
  obtain r1 w1 where g: "glue_get_partitions db t (page_size w) w = (r1, w1)"
    by (cases "glue_get_partitions db t (page_size w) w")
  from run g obtain pgs where r1: "r1 = Inr pgs"
    unfolding delete_partitions_def bind_w_def by (cases r1) auto
  from glue_get_partitions_ok [OF g [unfolded r1]] have pgs: "pgs = ?pgs" and w1: "w1 = ?w1"
    by simp_all
  from run g r1 b have loop: "for_each ?body ?pgs ?w1 = (Inr u, w')"
    unfolding delete_partitions_def bind_w_def by (simp add: pgs w1)
  have sub: "set (partitions w' (db, t)) \<subseteq> set (partitions ?w1 (db, t))"
  proof (rule for_each_rel [OF loop, where R = "\<lambda>a b. set (partitions b (db, t)) \<subseteq> set (partitions a (db, t))"])
    fix pg a a' u'
    assume "?body pg a = (Inr u', a')"
    from delete_page [OF b this] show "set (partitions a' (db, t)) \<subseteq> set (partitions a (db, t))"
      by (rule conjunct1)
  qed auto
  have gone: "\<forall>pg \<in> set ?pgs. \<forall>p \<in> set pg. p \<notin> set (partitions w' (db, t))"
  proof (rule for_each_post [OF loop, where Q = "\<lambda>pg a. \<forall>p \<in> set pg. p \<notin> set (partitions a (db, t))"])
    fix pg a a' u'
    assume "?body pg a = (Inr u', a')"
    from delete_page [OF b this] show "\<forall>p \<in> set pg. p \<notin> set (partitions a' (db, t))"
      by (rule conjunct2)
  next
    fix pg y a a' u'
    assume "?body y a = (Inr u', a')"
      and q: "\<forall>p \<in> set pg. p \<notin> set (partitions a (db, t))"
    from delete_page [OF b this(1)] have "set (partitions a' (db, t)) \<subseteq> set (partitions a (db, t))"
      by (rule conjunct1)
    with q show "\<forall>p \<in> set pg. p \<notin> set (partitions a' (db, t))"
      by (meson subsetD)
  qed
  show ?thesis
  proof (cases "partitions w' (db, t)")
    case Nil
    then show ?thesis .
  next
    case (Cons p ps)
    then have p: "p \<in> set (partitions w' (db, t))" by simp
    with sub have "p \<in> set (partitions w (db, t))" by auto
    from in_pages [OF this] gone p show ?thesis by meson
  qed
qed

lemma key_tuple_rehome: "key_tuple (rehome db t p) = key_tuple p"
  by (simp add: key_tuple_def rehome_def update_conv')

lemma key_tuple_without_keys:
  "key_tuple (without_keys [''DatabaseName'', ''TableName'', ''CreationTime''] p) = key_tuple p"
  by (simp add: key_tuple_def map_of_without_keys)

lemma add_partition_keys:
  "key_tuple ` set (add_partition db t ps p) = insert (key_tuple p) (key_tuple ` set ps)"
  by (auto simp: add_partition_def key_tuple_def [abs_def] rehome_def update_conv')

lemma add_partition_set:
  "set (add_partition db t ps p) \<subseteq> insert (rehome db t p) (set ps)"
  by (auto simp: add_partition_def)

lemma foldl_add_partition_keys:
  "key_tuple ` set (foldl (add_partition db t) ps ins) = key_tuple ` set ps \<union> key_tuple ` set ins"
  by (induction ins arbitrary: ps) (auto simp: add_partition_keys)

lemma foldl_add_partition_set:
  "set (foldl (add_partition db t) ps ins) \<subseteq> set ps \<union> rehome db t ` set ins"
proof (induction ins arbitrary: ps)
  case Nil
  then show ?case by simp
next
  case (Cons p ins)
  have "set (foldl (add_partition db t) (add_partition db t ps p) ins)
        \<subseteq> set (add_partition db t ps p) \<union> rehome db t ` set ins"
    by (rule Cons.IH)
  with add_partition_set [of db t ps p] show ?case by auto
qed

lemma subset_step: "X \<subseteq> Y \<union> U \<Longrightarrow> Y \<subseteq> A \<union> F \<Longrightarrow> X \<subseteq> A \<union> (F \<union> U)"
  by blast

lemma copy_loop:
  assumes keys: "\<And>q. key_tuple (f q) = key_tuple q"
    and run: "for_each (\<lambda>pg. glue_batch_create_partition db t (map f pg)) pgs v = (Inr u, v')"
  shows "key_tuple ` set (partitions v' (db, t))
           = key_tuple ` set (partitions v (db, t)) \<union> (\<Union>pg \<in> set pgs. key_tuple ` set pg)
       \<and> set (partitions v' (db, t))
           \<subseteq> set (partitions v (db, t)) \<union> (\<Union>pg \<in> set pgs. (\<lambda>q. rehome db t (f q)) ` set pg)
       \<and> calls v' = calls v @ map (\<lambda>pg. BatchCreatePartition db t (map f pg)) pgs"
  using run
proof (induction pgs arbitrary: v)
  case Nil
  then show ?case by simp
next
  case (Cons pg pgs)
  obtain r1 v1 where b0: "glue_batch_create_partition db t (map f pg) v = (r1, v1)"
    by (cases "glue_batch_create_partition db t (map f pg) v")
  from Cons.prems b0 obtain u1 where r1: "r1 = Inr u1"
    by (cases r1) auto
  from Cons.prems b0 r1 have
    r: "for_each (\<lambda>pg. glue_batch_create_partition db t (map f pg)) pgs v1 = (Inr u, v')"
    by simp
  from glue_batch_create_ok [OF b0 [unfolded r1]] have
    p1: "partitions v1 (db, t) = foldl (add_partition db t) (partitions v (db, t)) (map f pg)"
    and c1: "calls v1 = calls v @ [BatchCreatePartition db t (map f pg)]"
    by simp_all
  have "key_tuple ` set (map f pg) = key_tuple ` set pg"
    by (simp add: image_image keys)
  then have k1: "key_tuple ` set (partitions v1 (db, t)) = key_tuple ` set (partitions v (db, t)) \<union> key_tuple ` set pg"
    by (simp only: p1 foldl_add_partition_keys)
  have "rehome db t ` set (map f pg) = (\<lambda>q. rehome db t (f q)) ` set pg"
    by (simp add: image_image)
  then have s1: "set (partitions v1 (db, t)) \<subseteq> set (partitions v (db, t)) \<union> (\<lambda>q. rehome db t (f q)) ` set pg"
    using foldl_add_partition_set [of db t "partitions v (db, t)" "map f pg"]
    by (simp only: p1)
  note ih = Cons.IH [OF r]
  have k: "key_tuple ` set (partitions v' (db, t))
           = key_tuple ` set (partitions v1 (db, t)) \<union> (\<Union>pg \<in> set pgs. key_tuple ` set pg)"
    using ih by (rule conjunct1)
  have s: "set (partitions v' (db, t))
           \<subseteq> set (partitions v1 (db, t)) \<union> (\<Union>pg \<in> set pgs. (\<lambda>q. rehome db t (f q)) ` set pg)"
    using ih by (rule conjunct2 [THEN conjunct1])
  have c: "calls v' = calls v1 @ map (\<lambda>pg. BatchCreatePartition db t (map f pg)) pgs"
    using ih by (rule conjunct2 [THEN conjunct2])
  have K: "key_tuple ` set (partitions v' (db, t))
           = key_tuple ` set (partitions v (db, t)) \<union> (\<Union>pg \<in> set (pg # pgs). key_tuple ` set pg)"
    by (simp only: k k1 list.set UN_insert Un_assoc)
  have S: "set (partitions v' (db, t))
           \<subseteq> set (partitions v (db, t)) \<union> (\<Union>pg \<in> set (pg # pgs). (\<lambda>q. rehome db t (f q)) ` set pg)"
    using subset_step [OF s s1] by (simp only: list.set UN_insert)
  have C: "calls v' = calls v @ map (\<lambda>pg. BatchCreatePartition db t (map f pg)) (pg # pgs)"
    by (simp add: c c1)
  from K S C show ?case by (intro conjI)
qed

lemma copy_partitions_adds:
  assumes "copy_partitions sdb st db t w = (Inr u, w')"
  shows "key_tuple ` set (partitions w' (db, t))
           = key_tuple ` set (partitions w (db, t)) \<union> key_tuple ` set (partitions w (sdb, st))
       \<and> set (partitions w' (db, t))
           \<subseteq> set (partitions w (db, t))
             \<union> (\<lambda>q. rehome db t (without_keys [''DatabaseName'', ''TableName'', ''CreationTime''] q))
                 ` set (partitions w (sdb, st))
       \<and> calls w' = calls w @ GetPartitions sdb st #
           map (\<lambda>pg. BatchCreatePartition db t
                  (map (without_keys [''DatabaseName'', ''TableName'', ''CreationTime'']) pg))
             (pages 100 (partitions w (sdb, st)))"
proof -
  define f where "f = without_keys [''DatabaseName'', ''TableName'', ''CreationTime'']"
  have keys: "key_tuple (f q) = key_tuple q" for q
    unfolding f_def by (rule key_tuple_without_keys)
  define src where "src = partitions w (sdb, st)"
  define w0 where "w0 = w\<lparr>calls := calls w @ [GetPartitions sdb st]\<rparr>"
  obtain r1 w1 where g: "glue_get_partitions sdb st 100 w = (r1, w1)"
    by (cases "glue_get_partitions sdb st 100 w")
  from assms g obtain pgs where r1: "r1 = Inr pgs"
    unfolding copy_partitions_def bind_w_def by (cases r1) auto
  from glue_get_partitions_ok [OF g [unfolded r1]] have pgs: "pgs = pages 100 src" and w1: "w1 = w0"
    by (simp_all add: src_def w0_def)
  from assms g r1 have loop: "for_each (\<lambda>pg. glue_batch_create_partition db t (map f pg)) (pages 100 src) w0 = (Inr u, w')"
    unfolding copy_partitions_def bind_w_def Let_def f_def [symmetric] by (simp add: pgs w1)
  have U: "(\<Union>pg \<in> set (pages 100 src). g ` set pg) = g ` set src" for g :: "pydict \<Rightarrow> 'x"
    using Union_pages [of 100 src] by blast
  have w0p: "partitions w0 = partitions w" and w0c: "calls w0 = calls w @ [GetPartitions sdb st]"
    by (simp_all add: w0_def)
  from copy_loop [OF keys loop] show ?thesis
    unfolding U w0p w0c f_def [symmetric] src_def [symmetric] by simp
qed

lemma subset_imageE_helper: "A \<subseteq> g ` B \<Longrightarrow> \<forall>p \<in> A. \<exists>q \<in> B. p = g q"
  by blast

section \<open>Reconciliation\<close>

text \<open>
  Claim C3. When \<^verbatim>\<open>delete_partitions\<close> on the target and then \<^verbatim>\<open>copy_partitions\<close> from
  the staging table to the target both complete without error, the key tuples
  registered under the target are exactly those registered under the staging table when
  the reconciliation began, whatever their number. Every record under the target is
  then a staging record without \<open>DatabaseName\<close>, \<open>TableName\<close> and \<open>CreationTime\<close>, as
  the catalog re-homes it; the copy requests the staging partitions once and submits
  them page by page, each record without these three fields.
\<close>

theorem reconcile_replaces_partition_set:
  assumes del: "delete_partitions db tgt 25 w = (Inr u1, w1)"
    and cp: "copy_partitions db src db tgt w1 = (Inr u2, w2)"
    and ne: "src \<noteq> tgt"
  shows "key_tuple ` set (partitions w2 (db, tgt)) = key_tuple ` set (partitions w (db, src))
       \<and> (\<forall>p \<in> set (partitions w2 (db, tgt)). \<exists>q \<in> set (partitions w (db, src)).
             p = rehome db tgt (without_keys [''DatabaseName'', ''TableName'', ''CreationTime''] q))
       \<and> drop (length (calls w1)) (calls w2)
           = GetPartitions db src #
             map (\<lambda>pg. BatchCreatePartition db tgt
                    (map (without_keys [''DatabaseName'', ''TableName'', ''CreationTime'']) pg))
               (pages 100 (partitions w (db, src)))
       \<and> (\<forall>pg \<in> set (pages 100 (partitions w (db, src))).
             \<forall>p \<in> set (map (without_keys [''DatabaseName'', ''TableName'', ''CreationTime'']) pg).
               map_of p ''DatabaseName'' = None \<and> map_of p ''TableName'' = None
             \<and> map_of p ''CreationTime'' = None)"
proof -
  have empty: "partitions w1 (db, tgt) = []"
    using delete_partitions_empties [OF _ del] by simp
  have "only_partitions_of (db, tgt) w w1"
    using del by (rule op_delete_partitions)
  then have same: "partitions w1 (db, src) = partitions w (db, src)"
    using ne by (simp add: only_partitions_of_def)
  note adds = copy_partitions_adds [OF cp, unfolded empty same]
  have 1: "key_tuple ` set (partitions w2 (db, tgt)) = key_tuple ` set (partitions w (db, src))"
    using adds by simp
  have "set (partitions w2 (db, tgt))
          \<subseteq> (\<lambda>q. rehome db tgt (without_keys [''DatabaseName'', ''TableName'', ''CreationTime''] q))
              ` set (partitions w (db, src))"
    using adds by simp
  then have 2: "\<forall>p \<in> set (partitions w2 (db, tgt)). \<exists>q \<in> set (partitions w (db, src)).
             p = rehome db tgt (without_keys [''DatabaseName'', ''TableName'', ''CreationTime''] q)"
    by (rule subset_imageE_helper)
  have 3: "drop (length (calls w1)) (calls w2)
           = GetPartitions db src #
             map (\<lambda>pg. BatchCreatePartition db tgt
                    (map (without_keys [''DatabaseName'', ''TableName'', ''CreationTime'']) pg))
               (pages 100 (partitions w (db, src)))"
    using adds by simp
  have 4: "\<forall>pg \<in> set (pages 100 (partitions w (db, src))).
             \<forall>p \<in> set (map (without_keys [''DatabaseName'', ''TableName'', ''CreationTime'']) pg).
               map_of p ''DatabaseName'' = None \<and> map_of p ''TableName'' = None
             \<and> map_of p ''CreationTime'' = None"
    by (auto simp: map_of_without_keys)
  from 1 2 3 4 show ?thesis by (intro conjI)
qed

end
